theory Spec2Isabelle
  imports Main
begin

section \<open>JavaScript values and the browser driver\<close>

text \<open>
  The program is \<^verbatim>\<open>web-automation-cli.js\<close>: the class \<^verbatim>\<open>WebAutomationEngine\<close>, whose
  tools drive one Playwright page. Playwright, the agents SDK and the clock are outside the
  program; what they answer is a parameter of the model.

  A JavaScript string is a \<open>string\<close>, one \<open>char\<close> for one code unit. An awaited call
  either resolves or rejects with an error whose \<^verbatim>\<open>message\<close> is a string; a function of
  the program either returns or throws.
\<close>

datatype 'a outcome = Returned 'a | Thrown string

text \<open>
  The calls the tools make on \<^verbatim>\<open>this.page\<close>, with the arguments the source passes:
  \<^verbatim>\<open>goto(url, {waitUntil: 'networkidle', timeout})\<close>, \<^verbatim>\<open>title()\<close>,
  \<^verbatim>\<open>screenshot({path, fullPage})\<close>, \<^verbatim>\<open>waitForSelector(selector, {timeout})\<close>,
  \<^verbatim>\<open>click(selector)\<close>, \<^verbatim>\<open>keyboard.press(key)\<close>, \<^verbatim>\<open>type(selector, text, {delay})\<close>,
  \<^verbatim>\<open>evaluate(fn)\<close> and \<^verbatim>\<open>mouse.wheel(x, y)\<close>.
\<close>

datatype call =
    Goto string int
  | Title
  | Screenshot string bool
  | WaitForSelector string int
  | Click string
  | KeyboardPress string
  | TypeText string string int
  | Evaluate
  | MouseWheel int int

text \<open>An element of the document, with the properties \<^verbatim>\<open>analyze_form\<close> reads.\<close>

record element =
  offsetParent :: "nat option"
  elem_type :: string
  elem_name :: string
  elem_id :: string
  placeholder :: string
  className :: "string option"
  textContent :: "string option"
  href :: "string option"

text \<open>
  A page: \<open>rejects c\<close> is the message with which the call \<open>c\<close> rejects (\<open>None\<close> when it
  resolves), \<open>page_title\<close> is what \<^verbatim>\<open>title()\<close> resolves to, the three element lists are what
  the three \<^verbatim>\<open>querySelectorAll\<close> of \<^verbatim>\<open>analyze_form\<close> find, and \<open>calls\<close> records every
  call the page has received, in order, with whether it resolved. The answers of the page
  are held fixed while one tool runs.
\<close>

record page =
  rejects :: "call \<Rightarrow> string option"
  page_title :: string
  allInputs :: "element list"
  allButtons :: "element list"
  allLinks :: "element list"
  calls :: "(call \<times> bool) list"

text \<open>
  A browser: \<open>closeRejects\<close> gives, for the connection state in which \<^verbatim>\<open>close()\<close> is
  called, the message with which it rejects; \<open>closeCalls\<close> counts the invocations of
  \<^verbatim>\<open>close()\<close>.
\<close>

record browser =
  isConnected :: bool
  closeRejects :: "bool \<Rightarrow> string option"
  closeCalls :: nat

record engine =
  headless :: bool
  slowMo :: int
  timeout :: int
  screenshotPath :: string
  browser :: "browser option"
  page :: "page option"

text \<open>The property of \<^verbatim>\<open>this.page\<close> that a call reads first.\<close>

fun memberName :: "call \<Rightarrow> string" where
  "memberName (Goto _ _) = ''goto''"
| "memberName Title = ''title''"
| "memberName (Screenshot _ _) = ''screenshot''"
| "memberName (WaitForSelector _ _) = ''waitForSelector''"
| "memberName (Click _) = ''click''"
| "memberName (KeyboardPress _) = ''keyboard''"
| "memberName (TypeText _ _ _) = ''type''"
| "memberName Evaluate = ''evaluate''"
| "memberName (MouseWheel _ _) = ''mouse''"

text \<open>
  \<^verbatim>\<open>await this.page.m(...)\<close>. While \<^verbatim>\<open>this.page\<close> is \<^verbatim>\<open>null\<close> the property read throws
  a TypeError and the page receives nothing; otherwise the page records the call and
  answers it. The result is the error message, \<open>None\<close> when the call resolved.
\<close>

definition pageCall :: "call \<Rightarrow> engine \<Rightarrow> string option \<times> engine" where
  "pageCall c e =
     (case page e of
        None \<Rightarrow> (Some (''Cannot read properties of null (reading '' @ [CHR 0x27] @ memberName c
                        @ [CHR 0x27] @ '')''), e)
      | Some p \<Rightarrow>
          (rejects p c, e\<lparr>page := Some (p\<lparr>calls := calls p @ [(c, rejects p c = None)]\<rparr>)\<rparr>))"

text \<open>
  The awaited calls of a \<^verbatim>\<open>try\<close> body, in order: the first one that rejects ends the body
  and its message reaches the \<^verbatim>\<open>catch\<close>.
\<close>

fun tryCalls :: "call list \<Rightarrow> engine \<Rightarrow> string option \<times> engine" where
  "tryCalls [] e = (None, e)"
| "tryCalls (c # cs) e =
     (case pageCall c e of
        (Some err, e') \<Rightarrow> (Some err, e')
      | (None, e') \<Rightarrow> tryCalls cs e')"

section \<open>click\_element\<close>

text \<open>
  \<^verbatim>\<open>for (const selector of selectors) { try { await waitForSelector(selector, 3000);
  await click(selector); return `Successfully clicked ...` } catch { continue } }
  return `Failed to click ...`\<close>
\<close>

fun clickElement :: "string list \<Rightarrow> string \<Rightarrow> engine \<Rightarrow> string outcome \<times> engine" where
  "clickElement [] description e = (Returned (''Failed to click '' @ description), e)"
| "clickElement (selector # selectors) description e =
     (case tryCalls [WaitForSelector selector 3000, Click selector] e of
        (None, e') \<Rightarrow>
          (Returned (''Successfully clicked '' @ description @ '' using '' @ selector), e')
      | (Some err, e') \<Rightarrow> clickElement selectors description e')"


section \<open>wait\_for\_element\<close>

text \<open>
  \<^verbatim>\<open>for (const selector of selectors) { try { await waitForSelector(selector, {timeout});
  return `Element found: ...` } catch { continue } } return 'No elements found'\<close>
\<close>

fun waitForElement :: "string list \<Rightarrow> int \<Rightarrow> engine \<Rightarrow> string outcome \<times> engine" where
  "waitForElement [] t e = (Returned ''No elements found'', e)"
| "waitForElement (selector # selectors) t e =
     (case tryCalls [WaitForSelector selector t] e of
        (None, e') \<Rightarrow> (Returned (''Element found: '' @ selector), e')
      | (Some err, e') \<Rightarrow> waitForElement selectors t e')"

section \<open>Numbers in template literals\<close>

definition digit :: "nat \<Rightarrow> char" where
  "digit d = ''0123456789'' ! d"

function decimal :: "nat \<Rightarrow> string" where
  "decimal n = (if n < 10 then [digit n] else decimal (n div 10) @ [digit (n mod 10)])"
  by pat_completeness auto
termination
  by (relation "measure id") auto

definition showInt :: "int \<Rightarrow> string" where
  "showInt i = (if i < 0 then ''-'' @ decimal (nat (- i)) else decimal (nat i))"

section \<open>fill\_form\<close>

record formField =
  field_name :: string
  field_value :: string
  field_selectors :: "string list"

text \<open>The awaited calls of the \<^verbatim>\<open>try\<close> body that fills one field through one selector.\<close>

definition fillCalls :: "formField \<Rightarrow> string \<Rightarrow> call list" where
  "fillCalls field selector =
     [WaitForSelector selector 2000, Click selector, KeyboardPress ''Control+A'',
      KeyboardPress ''Delete'', TypeText selector (field_value field) 50]"

text \<open>The inner loop, over the selectors of one field; the result is the flag \<^verbatim>\<open>filled\<close>.\<close>

fun fillField :: "formField \<Rightarrow> string list \<Rightarrow> engine \<Rightarrow> bool \<times> engine" where
  "fillField field [] e = (False, e)"
| "fillField field (selector # selectors) e =
     (case tryCalls (fillCalls field selector) e of
        (None, e') \<Rightarrow> (True, e')
      | (Some err, e') \<Rightarrow> fillField field selectors e')"

text \<open>The outer loop, over \<^verbatim>\<open>fields\<close> (here \<open>flds\<close>), with the counter \<^verbatim>\<open>filledCount\<close>.\<close>

fun fillFields :: "formField list \<Rightarrow> nat \<Rightarrow> engine \<Rightarrow> nat \<times> engine" where
  "fillFields [] filledCount e = (filledCount, e)"
| "fillFields (field # flds) filledCount e =
     (case fillField field (field_selectors field) e of
        (True, e') \<Rightarrow> fillFields flds (filledCount + 1) e'
      | (False, e') \<Rightarrow> fillFields flds filledCount e')"

definition fillForm :: "formField list \<Rightarrow> engine \<Rightarrow> string outcome \<times> engine" where
  "fillForm flds e =
     (case fillFields flds 0 e of
        (filledCount, e') \<Rightarrow>
          (Returned (''Filled '' @ decimal filledCount @ ''/'' @ decimal (length flds)
                     @ '' form fields''), e'))"

section \<open>open\_browser\<close>

text \<open>What \<^verbatim>\<open>title()\<close> resolves to (the page is there whenever the call resolved).\<close>

definition titleOf :: "engine \<Rightarrow> string" where
  "titleOf e = (case page e of None \<Rightarrow> [] | Some p \<Rightarrow> page_title p)"

definition openBrowser :: "string \<Rightarrow> engine \<Rightarrow> string outcome \<times> engine" where
  "openBrowser url e =
     (case tryCalls [Goto url (timeout e), Title] e of
        (None, e') \<Rightarrow>
          (Returned (''Successfully navigated to '' @ url @ ''. Page title: '' @ [CHR 0x22]
                     @ titleOf e' @ [CHR 0x22]), e')
      | (Some err, e') \<Rightarrow> (Returned (''Navigation failed: '' @ err), e'))"

section \<open>take\_screenshot\<close>

text \<open>\<^verbatim>\<open>.replace(/[:.]/g, '-')\<close>\<close>

definition replaceColonDot :: "string \<Rightarrow> string" where
  "replaceColonDot s = map (\<lambda>c. if c = CHR '':'' \<or> c = CHR ''.'' then CHR ''-'' else c) s"

text \<open>
  The file name, from the tool's \<^verbatim>\<open>name\<close> (\<open>None\<close> for \<^verbatim>\<open>null\<close>) and from \<open>isoTime\<close>, the
  string that \<^verbatim>\<open>new Date().toISOString()\<close> returned. The test \<^verbatim>\<open>name ? ... : ...\<close> is on
  truthiness: \<^verbatim>\<open>null\<close> and the empty string take the second branch.
\<close>

definition screenshotFilename :: "string option \<Rightarrow> string \<Rightarrow> string" where
  "screenshotFilename name isoTime =
     (let timestamp = replaceColonDot isoTime in
      case name of
        None \<Rightarrow> ''screenshot-'' @ timestamp @ ''.png''
      | Some n \<Rightarrow>
          if n \<noteq> [] then n @ ''-'' @ timestamp @ ''.png''
          else ''screenshot-'' @ timestamp @ ''.png'')"

definition takeScreenshot :: "string option \<Rightarrow> string \<Rightarrow> engine \<Rightarrow> string outcome \<times> engine" where
  "takeScreenshot name isoTime e =
     (let filename = screenshotFilename name isoTime in
      case tryCalls [Screenshot (screenshotPath e @ ''/'' @ filename) False] e of
        (None, e') \<Rightarrow> (Returned (''Screenshot saved as '' @ filename), e')
      | (Some err, e') \<Rightarrow> (Returned (''Screenshot failed: '' @ err), e'))"


section \<open>analyze\_form\<close>

text \<open>
  \<^verbatim>\<open>String.prototype.trim\<close> removes white space and line terminators from both ends; among
  the code units a \<open>char\<close> holds these are TAB, LF, VT, FF, CR, SP and NBSP.
\<close>

definition isWhiteSpace :: "char \<Rightarrow> bool" where
  "isWhiteSpace c = (c \<in> set [CHR 0x09, CHR 0x0A, CHR 0x0B, CHR 0x0C, CHR 0x0D, CHR 0x20, CHR 0xA0])"

definition trim :: "string \<Rightarrow> string" where
  "trim s = rev (dropWhile isWhiteSpace (rev (dropWhile isWhiteSpace s)))"

text \<open>\<^verbatim>\<open>a || b\<close> on strings: the empty string is falsy.\<close>

definition orElse :: "string \<Rightarrow> string \<Rightarrow> string" where
  "orElse a b = (if a = [] then b else a)"

text \<open>\<^verbatim>\<open>el.className?.split(' ')[0] || ''\<close>\<close>

definition firstClass :: "element \<Rightarrow> string" where
  "firstClass el =
     (case className el of
        None \<Rightarrow> []
      | Some cn \<Rightarrow> orElse (takeWhile (\<lambda>c. c \<noteq> CHR '' '') cn) [])"

text \<open>\<^verbatim>\<open>el.textContent?.trim() || ''\<close>\<close>

definition trimmedText :: "element \<Rightarrow> string" where
  "trimmedText el =
     (case textContent el of
        None \<Rightarrow> []
      | Some t \<Rightarrow> orElse (trim t) [])"

record inputInfo =
  input_type :: string
  input_name :: string
  input_id :: string
  input_placeholder :: string
  input_className :: string

record buttonInfo =
  button_text :: string
  button_type :: string
  button_className :: string

record linkInfo =
  link_text :: string
  link_href :: string

record formAnalysis =
  inputs :: "inputInfo list"
  buttons :: "buttonInfo list"
  links :: "linkInfo list"

definition inputInfoOf :: "element \<Rightarrow> inputInfo" where
  "inputInfoOf input =
     \<lparr>input_type = orElse (elem_type input) ''text'',
      input_name = orElse (elem_name input) [],
      input_id = orElse (elem_id input) [],
      input_placeholder = orElse (placeholder input) [],
      input_className = firstClass input\<rparr>"

definition buttonInfoOf :: "element \<Rightarrow> buttonInfo" where
  "buttonInfoOf button =
     \<lparr>button_text = take 50 (trimmedText button),
      button_type = orElse (elem_type button) [],
      button_className = firstClass button\<rparr>"

definition linkInfoOf :: "element \<Rightarrow> linkInfo" where
  "linkInfoOf link =
     \<lparr>link_text = trimmedText link,
      link_href = (case href link of None \<Rightarrow> [] | Some h \<Rightarrow> orElse (take 100 h) [])\<rparr>"

definition visible :: "element \<Rightarrow> bool" where
  "visible el = (offsetParent el \<noteq> None)"

definition shortText :: "element \<Rightarrow> bool" where
  "shortText link = (let t = trimmedText link in length t > 0 \<and> length t < 50)"

text \<open>The function that \<^verbatim>\<open>page.evaluate\<close> runs in the page.\<close>

definition formAnalysisOf :: "page \<Rightarrow> formAnalysis" where
  "formAnalysisOf p =
     \<lparr>inputs = map inputInfoOf (take 10 (filter visible (allInputs p))),
      buttons = map buttonInfoOf (take 5 (filter visible (allButtons p))),
      links = map linkInfoOf (take 10 (filter shortText (allLinks p)))\<rparr>"

datatype toolResult = Text string | Analysis formAnalysis | AnalysisError string

text \<open>What \<^verbatim>\<open>evaluate\<close> resolves to (the page is there whenever the call resolved).\<close>

definition evaluated :: "engine \<Rightarrow> formAnalysis" where
  "evaluated e =
     (case page e of
        None \<Rightarrow> \<lparr>inputs = [], buttons = [], links = []\<rparr>
      | Some p \<Rightarrow> formAnalysisOf p)"

definition analyzeForm :: "engine \<Rightarrow> toolResult outcome \<times> engine" where
  "analyzeForm e =
     (case tryCalls [Evaluate] e of
        (None, e') \<Rightarrow> (Returned (Analysis (evaluated e')), e')
      | (Some err, e') \<Rightarrow> (Returned (AnalysisError (''Form analysis failed: '' @ err)), e'))"

section \<open>scroll\_page\<close>

datatype direction = Up | Down | Left | Right

fun directionName :: "direction \<Rightarrow> string" where
  "directionName Up = ''up''"
| "directionName Down = ''down''"
| "directionName Left = ''left''"
| "directionName Right = ''right''"

text \<open>
  \<^verbatim>\<open>scrollMap[direction]\<close>, with \<^verbatim>\<open>amount\<close> an integer number of pixels (the unary minus of
  the source is exact on every number).
\<close>

fun scrollMap :: "direction \<Rightarrow> int \<Rightarrow> int \<times> int" where
  "scrollMap Down amount = (0, amount)"
| "scrollMap Up amount = (0, - amount)"
| "scrollMap Right amount = (amount, 0)"
| "scrollMap Left amount = (- amount, 0)"

definition scrollPage :: "direction \<Rightarrow> int \<Rightarrow> engine \<Rightarrow> string outcome \<times> engine" where
  "scrollPage dir amount e =
     (case scrollMap dir amount of
        (x, y) \<Rightarrow>
          (case tryCalls [MouseWheel x y] e of
             (None, e') \<Rightarrow>
               (Returned (''Scrolled '' @ directionName dir @ '' by '' @ showInt amount @ ''px''), e')
           | (Some err, e') \<Rightarrow> (Returned (''Scroll failed: '' @ err), e')))"

section \<open>Closing the browser\<close>

text \<open>
  \<^verbatim>\<open>await browser.close()\<close>: the browser counts the invocation; when the call resolves the
  browser is disconnected, when it rejects the connection is as it was.
\<close>

definition browserClose :: "browser \<Rightarrow> string option \<times> browser" where
  "browserClose b =
     (case closeRejects b (isConnected b) of
        None \<Rightarrow> (None, b\<lparr>isConnected := False, closeCalls := closeCalls b + 1\<rparr>)
      | Some err \<Rightarrow> (Some err, b\<lparr>closeCalls := closeCalls b + 1\<rparr>))"

text \<open>
  The tool \<^verbatim>\<open>close_browser\<close>:
  \<^verbatim>\<open>try { if (this.browser) { await this.browser.close(); } return 'Browser closed successfully' }
  catch (error) { return `Browser close failed: ${error.message}` }\<close>
\<close>

definition closeBrowser :: "engine \<Rightarrow> string outcome \<times> engine" where
  "closeBrowser e =
     (case browser e of
        None \<Rightarrow> (Returned ''Browser closed successfully'', e)
      | Some b \<Rightarrow>
          (case browserClose b of
             (None, b') \<Rightarrow> (Returned ''Browser closed successfully'', e\<lparr>browser := Some b'\<rparr>)
           | (Some err, b') \<Rightarrow>
               (Returned (''Browser close failed: '' @ err), e\<lparr>browser := Some b'\<rparr>)))"

text \<open>
  \<^verbatim>\<open>if (this.browser && this.browser.isConnected()) { await this.browser.close(); }\<close>, the
  body of \<^verbatim>\<open>cleanup\<close> and of the \<^verbatim>\<open>catch\<close> of \<^verbatim>\<open>runAutomation\<close>. Nothing catches a
  rejection here.
\<close>

definition closeIfConnected :: "engine \<Rightarrow> string option \<times> engine" where
  "closeIfConnected e =
     (case browser e of
        None \<Rightarrow> (None, e)
      | Some b \<Rightarrow>
          if isConnected b
          then (case browserClose b of (r, b') \<Rightarrow> (r, e\<lparr>browser := Some b'\<rparr>))
          else (None, e))"

definition cleanup :: "engine \<Rightarrow> unit outcome \<times> engine" where
  "cleanup e =
     (case closeIfConnected e of
        (None, e') \<Rightarrow> (Returned (), e')
      | (Some err, e') \<Rightarrow> (Thrown err, e'))"

section \<open>Construction and launch\<close>

text \<open>
  A number of JavaScript as the options carry it: an integer or \<^verbatim>\<open>NaN\<close> (what
  \<^verbatim>\<open>parseInt\<close> returns for text that is no number). An option that was not supplied is
  \<open>None\<close>.
\<close>

datatype number = NaN | Num int

record options =
  opt_headless :: "bool option"
  opt_slowMo :: "number option"
  opt_timeout :: "number option"
  opt_screenshotPath :: "string option"

text \<open>\<^verbatim>\<open>v || d\<close> on numbers: \<^verbatim>\<open>undefined\<close>, \<^verbatim>\<open>NaN\<close> and \<^verbatim>\<open>0\<close> are falsy.\<close>

definition numberOr :: "number option \<Rightarrow> int \<Rightarrow> int" where
  "numberOr v d =
     (case v of
        None \<Rightarrow> d
      | Some NaN \<Rightarrow> d
      | Some (Num n) \<Rightarrow> if n = 0 then d else n)"

definition boolOr :: "bool option \<Rightarrow> bool \<Rightarrow> bool" where
  "boolOr v d = (case v of None \<Rightarrow> d | Some b \<Rightarrow> if b then True else d)"

definition stringOr :: "string option \<Rightarrow> string \<Rightarrow> string" where
  "stringOr v d = (case v of None \<Rightarrow> d | Some s \<Rightarrow> orElse s d)"

text \<open>
  The constructor. It also creates the directory \<open>screenshotPath\<close> when that does not
  exist, an effect on the file system that is not part of the engine's state.
\<close>

definition constructor :: "options \<Rightarrow> engine" where
  "constructor opts =
     \<lparr>headless = boolOr (opt_headless opts) False,
      slowMo = numberOr (opt_slowMo opts) 1000,
      timeout = numberOr (opt_timeout opts) 30000,
      screenshotPath = stringOr (opt_screenshotPath opts) ''./screenshots'',
      browser = None,
      page = None\<rparr>"

text \<open>
  What \<^verbatim>\<open>chromium.launch\<close> and then \<^verbatim>\<open>browser.newPage\<close> answer: the launch rejects, or
  it gives a connected browser (described by how its \<^verbatim>\<open>close()\<close> will answer) and
  \<^verbatim>\<open>newPage\<close> rejects (\<open>Inl\<close>) or gives a page (\<open>Inr\<close>).
\<close>

datatype launch = LaunchRejects string | Launches "bool \<Rightarrow> string option" "string + page"

definition initialize :: "launch \<Rightarrow> engine \<Rightarrow> bool outcome \<times> engine" where
  "initialize l e =
     (case l of
        LaunchRejects err \<Rightarrow> (Thrown err, e)
      | Launches cr np \<Rightarrow>
          (let e1 = e\<lparr>browser := Some \<lparr>isConnected = True, closeRejects = cr, closeCalls = 0\<rparr>\<rparr> in
           case np of
             Inl err \<Rightarrow> (Thrown err, e1)
           | Inr p \<Rightarrow> (Returned True, e1\<lparr>page := Some p\<rparr>)))"


section \<open>The tool registry\<close>

text \<open>A validated request for one of the eight tools of \<^verbatim>\<open>createTools\<close>, by tool name.\<close>

datatype invocation =
    Open_browser string
  | Take_screenshot "string option"
  | Click_element "string list" string
  | Fill_form "formField list"
  | Analyze_form
  | Wait_for_element "string list" int
  | Scroll_page direction int
  | Close_browser

definition asText :: "string outcome \<times> engine \<Rightarrow> toolResult outcome \<times> engine" where
  "asText r =
     (case r of
        (Returned s, e) \<Rightarrow> (Returned (Text s), e)
      | (Thrown err, e) \<Rightarrow> (Thrown err, e))"

text \<open>The \<^verbatim>\<open>execute\<close> of the requested tool; \<open>now\<close> is the clock's ISO string at that moment.\<close>

fun execute :: "string \<Rightarrow> invocation \<Rightarrow> engine \<Rightarrow> toolResult outcome \<times> engine" where
  "execute now (Open_browser url) e = asText (openBrowser url e)"
| "execute now (Take_screenshot name) e = asText (takeScreenshot name now e)"
| "execute now (Click_element selectors description) e =
     asText (clickElement selectors description e)"
| "execute now (Fill_form flds) e = asText (fillForm flds e)"
| "execute now Analyze_form e = analyzeForm e"
| "execute now (Wait_for_element selectors t) e = asText (waitForElement selectors t e)"
| "execute now (Scroll_page dir amount) e = asText (scrollPage dir amount e)"
| "execute now Close_browser e = asText (closeBrowser e)"

section \<open>The turn loop and runAutomation\<close>

text \<open>
  Modelled from the spec: the reasoning engine, which the agents SDK reaches and which is
  not among the sources. To the history of a run it answers with a tool request (valid for
  the tool's schema, or not, with the validation message), with a final answer, or not at
  all (the transport failed); a run ends as Completed with the final answer or as Aborted.
  A tool result that is a thrown error reaches the history as its text.
\<close>

datatype action = Call invocation | BadCall string

datatype decision = Act action | FinalAnswer string | TransportFailure string

type_synonym history = "(action \<times> toolResult) list"

datatype runEnd = Completed string | Aborted

definition resultOf :: "toolResult outcome \<Rightarrow> toolResult" where
  "resultOf r = (case r of Returned v \<Rightarrow> v | Thrown err \<Rightarrow> Text err)"

text \<open>
  Modelled from the spec: the turn loop behind \<^verbatim>\<open>runner.run(automationAgent, task)\<close>. The
  class \<^verbatim>\<open>Runner\<close> comes from the agents SDK and is not among the sources; the loop follows
  section 4.3 of the specification. Per turn the reasoning engine is asked with the history;
  a tool request is validated (a violation becomes the turn's failure result), dispatched,
  the pair of request and result is appended to the history and the turn counter is
  incremented; a final answer ends the run as Completed; a transport failure is thrown;
  when the counter reaches \<open>maxTurns\<close> the run ends as Aborted. The history is returned
  beside the outcome.
\<close>

function runLoop ::
  "(history \<Rightarrow> decision) \<Rightarrow> (nat \<Rightarrow> string) \<Rightarrow> int \<Rightarrow> nat \<Rightarrow> history \<Rightarrow> engine
     \<Rightarrow> (runEnd outcome \<times> history) \<times> engine" where
  "runLoop decide clock maxTurns turns hist e =
     (if maxTurns \<le> int turns then ((Returned Aborted, hist), e)
      else
        (case decide hist of
           FinalAnswer a \<Rightarrow> ((Returned (Completed a), hist), e)
         | TransportFailure err \<Rightarrow> ((Thrown err, hist), e)
         | Act (BadCall msg) \<Rightarrow>
             runLoop decide clock maxTurns (turns + 1) (hist @ [(BadCall msg, Text msg)]) e
         | Act (Call req) \<Rightarrow>
             (case execute (clock turns) req e of
                (r, e') \<Rightarrow>
                  runLoop decide clock maxTurns (turns + 1) (hist @ [(Call req, resultOf r)]) e')))"
  by pat_completeness auto
termination
  by (relation "measure (\<lambda>(decide, clock, maxTurns, turns, hist, e). nat (maxTurns - int turns))")
    auto

declare runLoop.simps [simp del]

text \<open>
  \<^verbatim>\<open>runAutomation\<close>: the runner gets \<^verbatim>\<open>maxTurns: options.maxTurns || 25\<close>; when
  \<^verbatim>\<open>runner.run\<close> throws, the \<^verbatim>\<open>catch\<close> closes a connected browser and throws the error on
  (a rejection of that \<^verbatim>\<open>close()\<close> is thrown in its place).
\<close>

definition runAutomation ::
  "(history \<Rightarrow> decision) \<Rightarrow> (nat \<Rightarrow> string) \<Rightarrow> number option \<Rightarrow> engine
     \<Rightarrow> (runEnd outcome \<times> history) \<times> engine" where
  "runAutomation decide clock optMaxTurns e =
     (case runLoop decide clock (numberOr optMaxTurns 25) 0 [] e of
        ((Returned result, hist), e') \<Rightarrow> ((Returned result, hist), e')
      | ((Thrown err, hist), e') \<Rightarrow>
          (case closeIfConnected e' of
             (None, e'') \<Rightarrow> ((Thrown err, hist), e'')
           | (Some err2, e'') \<Rightarrow> ((Thrown err2, hist), e'')))"

text \<open>The tool dispatches recorded in a history.\<close>

fun dispatches :: "history \<Rightarrow> nat" where
  "dispatches [] = 0"
| "dispatches ((Call req, r) # h) = Suc (dispatches h)"
| "dispatches ((BadCall msg, r) # h) = dispatches h"

section \<open>The session life cycle\<close>

text \<open>
  The engine keeps no state field; the state of the session is read off \<^verbatim>\<open>this.browser\<close>
  and \<^verbatim>\<open>this.page\<close>: Ready when a connected browser and a page are held, Closed when the
  browser held is disconnected, Uninitialized otherwise.
\<close>

datatype sessionState = Uninitialized | Ready | Closed

definition sessionStateOf :: "engine \<Rightarrow> sessionState" where
  "sessionStateOf e =
     (case browser e of
        None \<Rightarrow> Uninitialized
      | Some b \<Rightarrow>
          if \<not> isConnected b then Closed
          else if page e = None then Uninitialized
          else Ready)"

text \<open>
  The operations on an engine: \<^verbatim>\<open>initialize\<close> (with what the launch answers), the
  \<^verbatim>\<open>execute\<close> of a tool, \<^verbatim>\<open>cleanup\<close>, and the forced close in the \<^verbatim>\<open>catch\<close> of
  \<^verbatim>\<open>runAutomation\<close>.
\<close>

datatype operation = Initialize launch | Execute string invocation | Cleanup | ForceClose

fun step :: "operation \<Rightarrow> engine \<Rightarrow> engine" where
  "step (Initialize l) e = snd (initialize l e)"
| "step (Execute now req) e = snd (execute now req e)"
| "step Cleanup e = snd (cleanup e)"
| "step ForceClose e = snd (closeIfConnected e)"

fun isInitialize :: "operation \<Rightarrow> bool" where
  "isInitialize (Initialize l) = True"
| "isInitialize _ = False"

fun isClose :: "operation \<Rightarrow> bool" where
  "isClose (Execute now Close_browser) = True"
| "isClose Cleanup = True"
| "isClose ForceClose = True"
| "isClose _ = False"

inductive reachable :: "engine \<Rightarrow> bool" where
  constructed: "reachable (constructor opts)"
| stepped: "reachable e \<Longrightarrow> reachable (step operation e)"


section \<open>Observing a run\<close>

text \<open>
  The calls the page has received so far, those it received between two states, and
  whether the page of an engine would let a call resolve.
\<close>

definition pageCalls :: "engine \<Rightarrow> (call \<times> bool) list" where
  "pageCalls e = (case page e of None \<Rightarrow> [] | Some p \<Rightarrow> calls p)"

definition issued :: "engine \<Rightarrow> engine \<Rightarrow> (call \<times> bool) list" where
  "issued e e' = drop (length (pageCalls e)) (pageCalls e')"

definition resolves :: "engine \<Rightarrow> call \<Rightarrow> bool" where
  "resolves e c = (case page e of None \<Rightarrow> False | Some p \<Rightarrow> rejects p c = None)"

text \<open>The selectors waited for, in order; the selectors of the clicks that were carried out.\<close>

fun waited :: "(call \<times> bool) list \<Rightarrow> string list" where
  "waited [] = []"
| "waited ((WaitForSelector s t, ok) # cs) = s # waited cs"
| "waited (c # cs) = waited cs"

fun clicked :: "(call \<times> bool) list \<Rightarrow> string list" where
  "clicked [] = []"
| "clicked ((Click s, True) # cs) = s # clicked cs"
| "clicked (c # cs) = clicked cs"

text \<open>The selector and text of the \<^verbatim>\<open>type\<close> calls that were carried out.\<close>

fun typed :: "(call \<times> bool) list \<Rightarrow> (string \<times> string) list" where
  "typed [] = []"
| "typed ((TypeText s v d, True) # cs) = (s, v) # typed cs"
| "typed (c # cs) = typed cs"

text \<open>
  A candidate of \<^verbatim>\<open>click_element\<close> matches an actionable element when the wait of 3000 ms
  and the click both resolve.
\<close>

definition matches :: "engine \<Rightarrow> string \<Rightarrow> bool" where
  "matches e s = (resolves e (WaitForSelector s 3000) \<and> resolves e (Click s))"

text \<open>
  A selector fills a field when every call of the \<^verbatim>\<open>try\<close> body resolves; a field is
  resolvable when one of its selectors fills it, and \<open>fillSelector\<close> is the first that does.
\<close>

definition fillable :: "engine \<Rightarrow> formField \<Rightarrow> string \<Rightarrow> bool" where
  "fillable e field s = list_all (resolves e) (fillCalls field s)"

definition resolvable :: "engine \<Rightarrow> formField \<Rightarrow> bool" where
  "resolvable e field = list_ex (fillable e field) (field_selectors field)"

definition fillSelector :: "engine \<Rightarrow> formField \<Rightarrow> string" where
  "fillSelector e field =
     (case find (fillable e field) (field_selectors field) of
        None \<Rightarrow> []
      | Some s \<Rightarrow> s)"

text \<open>The values of an option that \<^verbatim>\<open>||\<close> replaces by the default.\<close>

definition falsyNumber :: "number option \<Rightarrow> bool" where
  "falsyNumber v = (v = None \<or> v = Some NaN \<or> v = Some (Num 0))"

definition falsyString :: "string option \<Rightarrow> bool" where
  "falsyString v = (v = None \<or> v = Some [])"

text \<open>The outcome and the history of a run, and two kinds of answer of the reasoning engine.\<close>

definition runOutcome :: "(runEnd outcome \<times> history) \<times> engine \<Rightarrow> runEnd outcome" where
  "runOutcome res = fst (fst res)"

definition runHistory :: "(runEnd outcome \<times> history) \<times> engine \<Rightarrow> history" where
  "runHistory res = snd (fst res)"

definition isTransportFailure :: "decision \<Rightarrow> bool" where
  "isTransportFailure d = (case d of TransportFailure err \<Rightarrow> True | _ \<Rightarrow> False)"

definition isToolCall :: "decision \<Rightarrow> bool" where
  "isToolCall d = (case d of Act (Call req) \<Rightarrow> True | _ \<Rightarrow> False)"

text \<open>The result with which a tool reports that it could not do its work.\<close>

definition startsWith :: "string \<Rightarrow> string \<Rightarrow> bool" where
  "startsWith p s = (take (length p) s = p)"

fun failed :: "invocation \<Rightarrow> toolResult \<Rightarrow> bool" where
  "failed (Open_browser url) r =
     (case r of Text s \<Rightarrow> startsWith ''Navigation failed: '' s | _ \<Rightarrow> False)"
| "failed (Take_screenshot name) r =
     (case r of Text s \<Rightarrow> startsWith ''Screenshot failed: '' s | _ \<Rightarrow> False)"
| "failed (Click_element selectors description) r = (r = Text (''Failed to click '' @ description))"
| "failed (Fill_form flds) r =
     (r = Text (''Filled 0/'' @ decimal (length flds) @ '' form fields''))"
| "failed Analyze_form r =
     (case r of AnalysisError s \<Rightarrow> startsWith ''Form analysis failed: '' s | _ \<Rightarrow> False)"
| "failed (Wait_for_element selectors t) r = (r = Text ''No elements found'')"
| "failed (Scroll_page dir amount) r =
     (case r of Text s \<Rightarrow> startsWith ''Scroll failed: '' s | _ \<Rightarrow> False)"
| "failed Close_browser r =
     (case r of Text s \<Rightarrow> startsWith ''Browser close failed: '' s | _ \<Rightarrow> False)"

text \<open>
  The file name of a screenshot as the specification words it: the given name, or
  \<^verbatim>\<open>screenshot\<close> when no name is given.
\<close>

definition specFilename :: "string option \<Rightarrow> string \<Rightarrow> string" where
  "specFilename name isoTime =
     (case name of None \<Rightarrow> ''screenshot'' | Some n \<Rightarrow> n) @ ''-'' @ replaceColonDot isoTime
     @ ''.png''"

section \<open>The record a run leaves on the page\<close>

text \<open>The state after the page has received further calls.\<close>

definition appendCalls :: "(call \<times> bool) list \<Rightarrow> engine \<Rightarrow> engine" where
  "appendCalls xs e = e\<lparr>page := map_option (\<lambda>p. p\<lparr>calls := calls p @ xs\<rparr>) (page e)\<rparr>"

text \<open>What the page records for a \<^verbatim>\<open>try\<close> body, and for the loops built from such bodies.\<close>

fun answers :: "engine \<Rightarrow> call list \<Rightarrow> (call \<times> bool) list" where
  "answers e [] = []"
| "answers e (c # cs) = (c, resolves e c) # (if resolves e c then answers e cs else [])"

definition clickTrace :: "engine \<Rightarrow> string list \<Rightarrow> (call \<times> bool) list" where
  "clickTrace e ss = concat (map (\<lambda>s. answers e [WaitForSelector s 3000, Click s]) ss)"

definition waitTrace :: "engine \<Rightarrow> int \<Rightarrow> string list \<Rightarrow> (call \<times> bool) list" where
  "waitTrace e t ss = concat (map (\<lambda>s. answers e [WaitForSelector s t]) ss)"

fun fieldTrace :: "engine \<Rightarrow> formField \<Rightarrow> string list \<Rightarrow> (call \<times> bool) list" where
  "fieldTrace e field [] = []"
| "fieldTrace e field (s # ss) =
     answers e (fillCalls field s) @ (if fillable e field s then [] else fieldTrace e field ss)"

definition formTrace :: "engine \<Rightarrow> formField list \<Rightarrow> (call \<times> bool) list" where
  "formTrace e flds = concat (map (\<lambda>f. fieldTrace e f (field_selectors f)) flds)"

text \<open>Log entries that carry the answer the page of \<open>e\<close> gives.\<close>

definition faithful :: "engine \<Rightarrow> (call \<times> bool) list \<Rightarrow> bool" where
  "faithful e xs = list_all (\<lambda>x. snd x = resolves e (fst x)) xs"

section \<open>Example engines and pages\<close>

definition defaults :: options where
  "defaults = \<lparr>opt_headless = None, opt_slowMo = None, opt_timeout = None,
               opt_screenshotPath = None\<rparr>"

text \<open>
  A page on which only \<^verbatim>\<open>button.submit\<close> can be waited for and clicked (the page of
  Scenario A), and a sign-up page on which \<^verbatim>\<open>#first\<close> and \<^verbatim>\<open>#email\<close> are found and
  everything asked of a found element succeeds.
\<close>

definition scenarioA :: engine where
  "scenarioA =
     (constructor defaults)
     \<lparr>browser := Some \<lparr>isConnected = True, closeRejects = (\<lambda>c. None), closeCalls = 0\<rparr>,
      page := Some \<lparr>rejects = (\<lambda>c. if c = WaitForSelector ''button.submit'' 3000
                                      \<or> c = Click ''button.submit'' then None
                                    else Some ''Timeout exceeded''),
                    page_title = ''Sign up'', allInputs = [], allButtons = [], allLinks = [],
                    calls = []\<rparr>\<rparr>"

definition signupForm :: engine where
  "signupForm =
     (constructor defaults)
     \<lparr>browser := Some \<lparr>isConnected = True, closeRejects = (\<lambda>c. None), closeCalls = 0\<rparr>,
      page := Some \<lparr>rejects = (\<lambda>c. case c of
                        WaitForSelector s t \<Rightarrow>
                          if s = ''#email'' \<or> s = ''#first'' then None else Some ''Timeout exceeded''
                      | _ \<Rightarrow> None),
                    page_title = ''Sign up'', allInputs = [], allButtons = [], allLinks = [],
                    calls = []\<rparr>\<rparr>"

definition signupFields :: "formField list" where
  "signupFields =
     [\<lparr>field_name = ''First Name'', field_value = ''John'',
       field_selectors = [''input[name=first]'', ''#first'']\<rparr>,
      \<lparr>field_name = ''Phone'', field_value = ''555'', field_selectors = [''#phone'']\<rparr>,
      \<lparr>field_name = ''Email'', field_value = ''john.doe@example.com'',
       field_selectors = [''#email'']\<rparr>]"

text \<open>
  A page with 15 visible inputs and a hidden one, six buttons, and twelve links of which
  the first has only white space for text (the page of Scenario C).
\<close>

definition visibleInput :: element where
  "visibleInput =
     \<lparr>offsetParent = Some 1, elem_type = ''email'', elem_name = ''email'', elem_id = [],
      placeholder = ''Email'', className = Some ''form-control wide'', textContent = Some [],
      href = None\<rparr>"

definition submitButton :: element where
  "submitButton =
     \<lparr>offsetParent = Some 1, elem_type = ''submit'', elem_name = [], elem_id = [],
      placeholder = [], className = Some ''btn btn-primary'',
      textContent = Some ''  Create your account  '', href = None\<rparr>"

definition homeLink :: element where
  "homeLink =
     \<lparr>offsetParent = Some 1, elem_type = [], elem_name = [], elem_id = [],
      placeholder = [], className = None, textContent = Some '' Home '',
      href = Some ''https://ui.chaicode.com/''\<rparr>"

definition scenarioC :: page where
  "scenarioC =
     \<lparr>rejects = (\<lambda>c. None), page_title = ''Sign up'',
      allInputs = replicate 15 visibleInput @ [visibleInput\<lparr>offsetParent := None\<rparr>],
      allButtons = replicate 6 submitButton,
      allLinks = homeLink\<lparr>textContent := Some ''   ''\<rparr> # replicate 11 homeLink,
      calls = []\<rparr>"

text \<open>A reasoning engine that asks for a scroll at every turn, and a clock that stands still.\<close>

definition alwaysScroll :: "history \<Rightarrow> decision" where
  "alwaysScroll h = Act (Call (Scroll_page Down 500))"

definition stoppedClock :: "nat \<Rightarrow> string" where
  "stoppedClock n = ''2024-01-01T00:00:00.000Z''"

text \<open>
  An engine after a launch whose browser lets every \<^verbatim>\<open>close()\<close> resolve, one whose browser
  rejects a \<^verbatim>\<open>close()\<close> once it is disconnected, and the first after \<^verbatim>\<open>cleanup\<close>.
\<close>

definition launchedEngine :: engine where
  "launchedEngine =
     step (Initialize (Launches (\<lambda>connected. None) (Inr scenarioC))) (constructor defaults)"

definition strictEngine :: engine where
  "strictEngine =
     step (Initialize (Launches (\<lambda>connected. if connected then None
                                 else Some ''Browser has been closed'') (Inr scenarioC)))
       (constructor defaults)"

definition closedEngine :: engine where
  "closedEngine = step Cleanup launchedEngine"

section \<open>Page calls and try bodies\<close>

lemma appendCalls_Nil [simp]: "appendCalls [] e = e"
  by (cases "page e") (simp_all add: appendCalls_def)

lemma appendCalls_appendCalls [simp]:
  "appendCalls ys (appendCalls xs e) = appendCalls (xs @ ys) e"
  by (cases "page e") (simp_all add: appendCalls_def)

lemma resolves_appendCalls [simp]: "resolves (appendCalls xs e) = resolves e"
  by (cases "page e") (simp_all add: appendCalls_def resolves_def fun_eq_iff)

lemma matches_appendCalls [simp]: "matches (appendCalls xs e) = matches e"
  by (simp add: matches_def fun_eq_iff)

lemma page_appendCalls_None [simp]: "page (appendCalls xs e) = None \<longleftrightarrow> page e = None"
  by (simp add: appendCalls_def)

lemma browser_appendCalls [simp]: "browser (appendCalls xs e) = browser e"
  by (simp add: appendCalls_def)

lemma issued_appendCalls: "page e \<noteq> None \<Longrightarrow> issued e (appendCalls xs e) = xs"
  by (cases "page e") (simp_all add: issued_def pageCalls_def appendCalls_def)

lemma issued_appendCalls_None: "page e = None \<Longrightarrow> issued e (appendCalls xs e) = []"
  by (simp add: issued_def pageCalls_def appendCalls_def)

lemma appendCalls_None: "page e = None \<Longrightarrow> appendCalls xs e = e"
  by (simp add: appendCalls_def)

lemma resolves_page: "resolves e c \<Longrightarrow> page e \<noteq> None"
  by (auto simp: resolves_def split: option.splits)

lemma fst_pageCall: "fst (pageCall c e) = None \<longleftrightarrow> resolves e c"
  by (cases "page e") (simp_all add: pageCall_def resolves_def)

lemma snd_pageCall: "snd (pageCall c e) = appendCalls [(c, resolves e c)] e"
  by (cases "page e") (simp_all add: pageCall_def resolves_def appendCalls_def)

lemma answers_appendCalls [simp]: "answers (appendCalls xs e) cs = answers e cs"
  by (induction cs) simp_all

lemma snd_tryCalls: "snd (tryCalls cs e) = appendCalls (answers e cs) e"
proof (induction cs arbitrary: e)
  case Nil
  show ?case by simp
next
  case (Cons c cs)
  obtain r e1 where p: "pageCall c e = (r, e1)" by (cases "pageCall c e")
  have e1: "e1 = appendCalls [(c, resolves e c)] e" using snd_pageCall [of c e] p by simp
  have r: "r = None \<longleftrightarrow> resolves e c" using fst_pageCall [of c e] p by simp
  show ?case
  proof (cases r)
    case None
    then show ?thesis using p e1 r Cons.IH [of e1] by simp
  next
    case (Some err)
    then show ?thesis using p e1 r by simp
  qed
qed

lemma fst_tryCalls: "fst (tryCalls cs e) = None \<longleftrightarrow> list_all (resolves e) cs"
proof (induction cs arbitrary: e)
  case Nil
  show ?case by simp
next
  case (Cons c cs)
  obtain r e1 where p: "pageCall c e = (r, e1)" by (cases "pageCall c e")
  have e1: "e1 = appendCalls [(c, resolves e c)] e" using snd_pageCall [of c e] p by simp
  have r: "r = None \<longleftrightarrow> resolves e c" using fst_pageCall [of c e] p by simp
  show ?case
  proof (cases r)
    case None
    then show ?thesis using p e1 r Cons.IH [of e1] by simp
  next
    case (Some err)
    then show ?thesis using p e1 r by simp
  qed
qed

text \<open>A \<^verbatim>\<open>try\<close> body either runs through or is cut at its first rejection.\<close>

lemma tryCalls_cases:
  obtains (through) "list_all (resolves e) cs"
      and "tryCalls cs e = (None, appendCalls (answers e cs) e)"
  | (cut) err where "\<not> list_all (resolves e) cs"
      and "tryCalls cs e = (Some err, appendCalls (answers e cs) e)"
proof (cases "fst (tryCalls cs e)")
  case None
  then have "list_all (resolves e) cs" by (simp add: fst_tryCalls)
  moreover have "tryCalls cs e = (None, appendCalls (answers e cs) e)"
    using None snd_tryCalls [of cs e] by (cases "tryCalls cs e") simp
  ultimately show ?thesis by (rule through)
next
  case (Some err)
  then have "\<not> list_all (resolves e) cs" using fst_tryCalls [of cs e] by simp
  moreover have "tryCalls cs e = (Some err, appendCalls (answers e cs) e)"
    using Some snd_tryCalls [of cs e] by (cases "tryCalls cs e") simp
  ultimately show ?thesis by (rule cut)
qed

lemma waited_append [simp]: "waited (xs @ ys) = waited xs @ waited ys"
  by (induction xs rule: waited.induct) simp_all

lemma clicked_append [simp]: "clicked (xs @ ys) = clicked xs @ clicked ys"
  by (induction xs rule: clicked.induct) simp_all

lemma typed_append [simp]: "typed (xs @ ys) = typed xs @ typed ys"
  by (induction xs rule: typed.induct) simp_all

section \<open>Selector fallback: click\_element and wait\_for\_element\<close>

lemma clickTrace_simps [simp]:
  "clickTrace e [] = []"
  "clickTrace e (s # ss) = answers e [WaitForSelector s 3000, Click s] @ clickTrace e ss"
  by (simp_all add: clickTrace_def)

lemma clickTrace_appendCalls [simp]: "clickTrace (appendCalls xs e) ss = clickTrace e ss"
  by (simp add: clickTrace_def del: answers.simps)

lemma waited_clickTrace: "waited (clickTrace e ss) = ss"
  by (induction ss) simp_all

lemma clicked_clickTrace: "clicked (clickTrace e ss) = filter (matches e) ss"
  by (induction ss) (simp_all add: matches_def)

lemma clickElement_step:
  "clickElement (s # ss) d e =
     (if matches e s
      then (Returned (''Successfully clicked '' @ d @ '' using '' @ s),
            appendCalls (clickTrace e [s]) e)
      else clickElement ss d (appendCalls (clickTrace e [s]) e))"
proof (cases rule: tryCalls_cases [of e "[WaitForSelector s 3000, Click s]"])
  case through
  then show ?thesis by (simp add: matches_def del: tryCalls.simps answers.simps)
next
  case (cut err)
  then show ?thesis by (auto simp add: matches_def simp del: tryCalls.simps answers.simps)
qed

lemma clickElement_exhausted:
  "\<forall>s \<in> set ss. \<not> matches e s \<Longrightarrow>
   clickElement ss d e = (Returned (''Failed to click '' @ d), appendCalls (clickTrace e ss) e)"
proof (induction ss arbitrary: e)
  case Nil
  show ?case by simp
next
  case (Cons s ss)
  have "clickElement (s # ss) d e = clickElement ss d (appendCalls (clickTrace e [s]) e)"
    using Cons.prems by (simp add: clickElement_step del: clickElement.simps)
  also have "\<dots> = (Returned (''Failed to click '' @ d),
      appendCalls (clickTrace e ss) (appendCalls (clickTrace e [s]) e))"
    using Cons.IH [of "appendCalls (clickTrace e [s]) e"] Cons.prems by simp
  finally show ?case by simp
qed

lemma clickElement_first_match:
  assumes "i < length ss" and "matches e (ss ! i)" and "\<forall>j<i. \<not> matches e (ss ! j)"
  shows "clickElement ss d e =
    (Returned (''Successfully clicked '' @ d @ '' using '' @ ss ! i),
     appendCalls (clickTrace e (take (Suc i) ss)) e)"
  using assms
proof (induction ss arbitrary: i e)
  case Nil
  then show ?case by simp
next
  case (Cons s ss)
  show ?case
  proof (cases i)
    case 0
    with Cons.prems show ?thesis by (simp add: clickElement_step del: clickElement.simps)
  next
    case (Suc k)
    let ?e1 = "appendCalls (clickTrace e [s]) e"
    from Cons.prems Suc have miss: "\<not> matches e s" by auto
    have k: "k < length ss" "matches ?e1 (ss ! k)" "\<forall>j<k. \<not> matches ?e1 (ss ! j)"
      using Cons.prems Suc by auto
    have "clickElement (s # ss) d e = clickElement ss d ?e1"
      using miss by (simp add: clickElement_step del: clickElement.simps)
    also have "\<dots> = (Returned (''Successfully clicked '' @ d @ '' using '' @ ss ! k),
        appendCalls (clickTrace ?e1 (take (Suc k) ss)) ?e1)"
      by (rule Cons.IH [OF k])
    finally show ?thesis using Suc by simp
  qed
qed

lemma filter_take_unique:
  assumes "i < length ss" and "P (ss ! i)" and "\<forall>j<i. \<not> P (ss ! j)"
  shows "filter P (take (Suc i) ss) = [ss ! i]"
proof -
  have "\<forall>x \<in> set (take i ss). \<not> P x"
    using assms by (auto simp: in_set_conv_nth)
  then have "filter P (take i ss) = []" by (simp add: filter_empty_conv)
  then show ?thesis using assms by (simp add: take_Suc_conv_app_nth)
qed

lemma waitTrace_simps [simp]:
  "waitTrace e t [] = []"
  "waitTrace e t (s # ss) = (WaitForSelector s t, resolves e (WaitForSelector s t)) # waitTrace e t ss"
  by (simp_all add: waitTrace_def)

lemma waitTrace_appendCalls [simp]: "waitTrace (appendCalls xs e) t ss = waitTrace e t ss"
  by (simp add: waitTrace_def del: answers.simps)

lemma waited_waitTrace: "waited (waitTrace e t ss) = ss"
  by (induction ss) simp_all

lemma waitForElement_step:
  "waitForElement (s # ss) t e =
     (if resolves e (WaitForSelector s t)
      then (Returned (''Element found: '' @ s), appendCalls (waitTrace e t [s]) e)
      else waitForElement ss t (appendCalls (waitTrace e t [s]) e))"
proof (cases rule: tryCalls_cases [of e "[WaitForSelector s t]"])
  case through
  then show ?thesis by (simp del: tryCalls.simps)
next
  case (cut err)
  then show ?thesis by (simp del: tryCalls.simps)
qed

lemma waitForElement_exhausted:
  "\<forall>s \<in> set ss. \<not> resolves e (WaitForSelector s t) \<Longrightarrow>
   waitForElement ss t e = (Returned ''No elements found'', appendCalls (waitTrace e t ss) e)"
proof (induction ss arbitrary: e)
  case Nil
  show ?case by simp
next
  case (Cons s ss)
  have "waitForElement (s # ss) t e = waitForElement ss t (appendCalls (waitTrace e t [s]) e)"
    using Cons.prems by (simp add: waitForElement_step del: waitForElement.simps)
  also have "\<dots> = (Returned ''No elements found'',
      appendCalls (waitTrace e t ss) (appendCalls (waitTrace e t [s]) e))"
    using Cons.IH [of "appendCalls (waitTrace e t [s]) e"] Cons.prems by simp
  finally show ?case by simp
qed

lemma clickTrace_unseen:
  "\<forall>s \<in> set ss. \<not> resolves e (WaitForSelector s 3000) \<Longrightarrow>
   clickTrace e ss = map (\<lambda>s. (WaitForSelector s 3000, False)) ss"
  by (induction ss) simp_all

lemma clickTrace_take_Suc:
  "i < length ss \<Longrightarrow> clickTrace e (take (Suc i) ss) = clickTrace e (take i ss) @ clickTrace e [ss ! i]"
  by (simp add: take_Suc_conv_app_nth clickTrace_def del: answers.simps)

text \<open>
  C1. Where exactly one candidate of the list matches an actionable element (its wait and
  its click resolve), \<^verbatim>\<open>click_element\<close> waits for the candidates in the order of the list
  up to that one and for none after it, reports that candidate, and carries out one click,
  on that candidate. Where no earlier candidate is found by its wait, the page receives
  nothing but those waits before the wait and the click of the match.
\<close>

theorem clickElement_unique_match:
  assumes "i < length selectors"
    and "matches e (selectors ! i)"
    and "\<forall>j<length selectors. j \<noteq> i \<longrightarrow> \<not> matches e (selectors ! j)"
  shows "fst (clickElement selectors description e) =
           Returned (''Successfully clicked '' @ description @ '' using '' @ selectors ! i)
       \<and> waited (issued e (snd (clickElement selectors description e))) = take (Suc i) selectors
       \<and> clicked (issued e (snd (clickElement selectors description e))) = [selectors ! i]
       \<and> ((\<forall>j<i. \<not> resolves e (WaitForSelector (selectors ! j) 3000)) \<longrightarrow>
            issued e (snd (clickElement selectors description e)) =
              map (\<lambda>s. (WaitForSelector s 3000, False)) (take i selectors)
              @ [(WaitForSelector (selectors ! i) 3000, True), (Click (selectors ! i), True)])"
proof -
  have first: "\<forall>j<i. \<not> matches e (selectors ! j)" using assms by auto
  have pg: "page e \<noteq> None" using assms(2) by (auto simp: matches_def dest: resolves_page)
  have run: "clickElement selectors description e =
    (Returned (''Successfully clicked '' @ description @ '' using '' @ selectors ! i),
     appendCalls (clickTrace e (take (Suc i) selectors)) e)"
    by (rule clickElement_first_match [OF assms(1,2) first])
  have calls: "issued e (snd (clickElement selectors description e)) =
      clickTrace e (take (Suc i) selectors)"
    using pg by (simp add: run issued_appendCalls)
  have hit: "clickTrace e [selectors ! i] =
      [(WaitForSelector (selectors ! i) 3000, True), (Click (selectors ! i), True)]"
    using assms(2) by (simp add: matches_def)
  have seq: "clickTrace e (take (Suc i) selectors) =
      map (\<lambda>s. (WaitForSelector s 3000, False)) (take i selectors)
      @ [(WaitForSelector (selectors ! i) 3000, True), (Click (selectors ! i), True)]"
    if unseen: "\<forall>j<i. \<not> resolves e (WaitForSelector (selectors ! j) 3000)"
  proof -
    have "\<forall>s \<in> set (take i selectors). \<not> resolves e (WaitForSelector s 3000)"
      using unseen assms(1) by (auto simp: in_set_conv_nth)
    then have "clickTrace e (take i selectors) =
        map (\<lambda>s. (WaitForSelector s 3000, False)) (take i selectors)"
      by (rule clickTrace_unseen)
    then show ?thesis using assms(1) hit by (simp only: clickTrace_take_Suc)
  qed
  have w: "waited (issued e (snd (clickElement selectors description e))) = take (Suc i) selectors"
    by (simp only: calls waited_clickTrace)
  have c: "clicked (issued e (snd (clickElement selectors description e))) = [selectors ! i]"
    using assms(1,2) first by (simp only: calls clicked_clickTrace filter_take_unique)
  have r: "fst (clickElement selectors description e) =
      Returned (''Successfully clicked '' @ description @ '' using '' @ selectors ! i)"
    by (simp only: run fst_conv)
  have s: "issued e (snd (clickElement selectors description e)) =
      map (\<lambda>s. (WaitForSelector s 3000, False)) (take i selectors)
      @ [(WaitForSelector (selectors ! i) 3000, True), (Click (selectors ! i), True)]"
    if "\<forall>j<i. \<not> resolves e (WaitForSelector (selectors ! j) 3000)"
    using seq [OF that] by (simp only: calls)
  show ?thesis using r w c s by blast
qed

lemma scenarioA_matches:
  "matches scenarioA s \<longleftrightarrow> s = ''button.submit''"
  by (auto simp add: matches_def resolves_def scenarioA_def)

theorem clickElement_unique_match_witness:
  "(1::nat) < length [''#missing'', ''button.submit'']
   \<and> matches scenarioA ([''#missing'', ''button.submit''] ! 1)
   \<and> \<not> matches scenarioA ([''#missing'', ''button.submit''] ! 0)
   \<and> fst (clickElement [''#missing'', ''button.submit''] ''Submit'' scenarioA) =
       Returned ''Successfully clicked Submit using button.submit''
   \<and> waited (issued scenarioA (snd (clickElement [''#missing'', ''button.submit''] ''Submit'' scenarioA)))
       = [''#missing'', ''button.submit'']
   \<and> clicked (issued scenarioA (snd (clickElement [''#missing'', ''button.submit''] ''Submit'' scenarioA)))
       = [''button.submit'']
   \<and> issued scenarioA (snd (clickElement [''#missing'', ''button.submit''] ''Submit'' scenarioA))
       = [(WaitForSelector ''#missing'' 3000, False), (WaitForSelector ''button.submit'' 3000, True),
          (Click ''button.submit'', True)]"
proof -
  have others: "\<forall>j<length [''#missing'', ''button.submit'']. j \<noteq> 1 \<longrightarrow>
      \<not> matches scenarioA ([''#missing'', ''button.submit''] ! j)"
    by (simp add: scenarioA_matches less_Suc_eq)
  have unseen: "\<not> resolves scenarioA (WaitForSelector ''#missing'' 3000)"
    by (simp add: resolves_def scenarioA_def)
  show ?thesis
    using clickElement_unique_match [of 1 "[''#missing'', ''button.submit'']" scenarioA "''Submit''",
        OF _ _ others] unseen
    by (simp add: scenarioA_matches)
qed

text \<open>
  C4. Where no candidate matches within its timeout, \<^verbatim>\<open>click_element\<close> and
  \<^verbatim>\<open>wait_for_element\<close> go through all the candidates, throw nothing, and return their
  failure text.
\<close>

theorem selectors_exhausted:
  "((\<forall>s \<in> set selectors. \<not> matches e s) \<longrightarrow>
      fst (clickElement selectors description e) = Returned (''Failed to click '' @ description)
      \<and> clicked (issued e (snd (clickElement selectors description e))) = []
      \<and> (page e \<noteq> None \<longrightarrow>
           waited (issued e (snd (clickElement selectors description e))) = selectors))
   \<and> ((\<forall>s \<in> set selectors. \<not> resolves e (WaitForSelector s t)) \<longrightarrow>
      fst (waitForElement selectors t e) = Returned ''No elements found''
      \<and> (page e \<noteq> None \<longrightarrow>
           waited (issued e (snd (waitForElement selectors t e))) = selectors))"
proof -
  have click: "fst (clickElement selectors description e) = Returned (''Failed to click '' @ description)
      \<and> clicked (issued e (snd (clickElement selectors description e))) = []
      \<and> (page e \<noteq> None \<longrightarrow>
           waited (issued e (snd (clickElement selectors description e))) = selectors)"
    if none: "\<forall>s \<in> set selectors. \<not> matches e s"
  proof (cases "page e")
    case None
    then show ?thesis
      using clickElement_exhausted [OF none, of description]
      by (simp add: issued_appendCalls_None)
  next
    case (Some p)
    have "filter (matches e) selectors = []" using none by (simp add: filter_empty_conv)
    then show ?thesis
      using Some clickElement_exhausted [OF none, of description]
      by (simp add: issued_appendCalls waited_clickTrace clicked_clickTrace)
  qed
  have wait: "fst (waitForElement selectors t e) = Returned ''No elements found''
      \<and> (page e \<noteq> None \<longrightarrow>
           waited (issued e (snd (waitForElement selectors t e))) = selectors)"
    if none: "\<forall>s \<in> set selectors. \<not> resolves e (WaitForSelector s t)"
    using waitForElement_exhausted [OF none]
    by (simp add: issued_appendCalls waited_waitTrace)
  show ?thesis using click wait by blast
qed

theorem selectors_exhausted_witness:
  "\<not> matches scenarioA ''#missing'' \<and> \<not> matches scenarioA ''a.signup''
   \<and> fst (clickElement [''#missing'', ''a.signup''] ''Sign Up'' scenarioA) =
       Returned ''Failed to click Sign Up''
   \<and> waited (issued scenarioA (snd (clickElement [''#missing'', ''a.signup''] ''Sign Up'' scenarioA)))
       = [''#missing'', ''a.signup'']
   \<and> \<not> resolves scenarioA (WaitForSelector ''#missing'' 10000)
   \<and> \<not> resolves scenarioA (WaitForSelector ''button.submit'' 10000)
   \<and> fst (waitForElement [''#missing'', ''button.submit''] 10000 scenarioA) =
       Returned ''No elements found''
   \<and> waited (issued scenarioA (snd (waitForElement [''#missing'', ''button.submit''] 10000 scenarioA)))
       = [''#missing'', ''button.submit'']"
proof -
  have pg: "page scenarioA \<noteq> None" by (simp add: scenarioA_def)
  have w: "\<not> resolves scenarioA (WaitForSelector ''#missing'' 10000)"
    "\<not> resolves scenarioA (WaitForSelector ''button.submit'' 10000)"
    by (simp_all add: resolves_def scenarioA_def)
  show ?thesis
    using selectors_exhausted [of "[''#missing'', ''a.signup'']" scenarioA "''Sign Up''" 10000]
      selectors_exhausted [of "[''#missing'', ''button.submit'']" scenarioA "''Sign Up''" 10000]
      pg w
    by (simp add: scenarioA_matches)
qed

section \<open>Partial form fill\<close>

lemma fillable_appendCalls [simp]: "fillable (appendCalls xs e) = fillable e"
  by (simp add: fillable_def fun_eq_iff)

lemma resolvable_appendCalls [simp]: "resolvable (appendCalls xs e) = resolvable e"
  by (simp add: resolvable_def fun_eq_iff)

lemma fieldTrace_appendCalls [simp]: "fieldTrace (appendCalls xs e) f ss = fieldTrace e f ss"
  by (induction ss) simp_all

lemma formTrace_appendCalls [simp]: "formTrace (appendCalls xs e) flds = formTrace e flds"
  by (simp add: formTrace_def)

lemma formTrace_simps [simp]:
  "formTrace e [] = []"
  "formTrace e (f # flds) = fieldTrace e f (field_selectors f) @ formTrace e flds"
  by (simp_all add: formTrace_def)

lemma typed_fillCalls:
  "typed (answers e (fillCalls f s)) = (if fillable e f s then [(s, field_value f)] else [])"
  by (simp add: fillable_def fillCalls_def)

lemma fillField_trace:
  "fillField f ss e = (list_ex (fillable e f) ss, appendCalls (fieldTrace e f ss) e)"
proof (induction ss arbitrary: e)
  case Nil
  show ?case by simp
next
  case (Cons s ss)
  show ?case
  proof (cases rule: tryCalls_cases [of e "fillCalls f s"])
    case through
    then show ?thesis by (simp add: fillable_def)
  next
    case (cut err)
    then show ?thesis
      using Cons.IH [of "appendCalls (answers e (fillCalls f s)) e"]
      by (simp add: fillable_def)
  qed
qed

lemma typed_fieldTrace:
  "typed (fieldTrace e f ss) =
     (case find (fillable e f) ss of None \<Rightarrow> [] | Some s \<Rightarrow> [(s, field_value f)])"
  by (induction ss) (simp_all add: typed_fillCalls)

lemma find_fillable: "find (fillable e f) (field_selectors f) = None \<longleftrightarrow> \<not> resolvable e f"
  by (auto simp: resolvable_def find_None_iff list_ex_iff)

lemma typed_field:
  "typed (fieldTrace e f (field_selectors f)) =
     (if resolvable e f then [(fillSelector e f, field_value f)] else [])"
  using find_fillable [of e f]
  by (cases "find (fillable e f) (field_selectors f)")
    (simp_all add: typed_fieldTrace fillSelector_def)

lemma typed_formTrace:
  "typed (formTrace e flds) =
     map (\<lambda>f. (fillSelector e f, field_value f)) (filter (resolvable e) flds)"
  by (induction flds) (simp_all add: typed_field)

lemma fillFields_trace:
  "fillFields flds n e =
     (n + length (filter (resolvable e) flds), appendCalls (formTrace e flds) e)"
proof (induction flds arbitrary: n e)
  case Nil
  show ?case by simp
next
  case (Cons f flds)
  let ?e1 = "appendCalls (fieldTrace e f (field_selectors f)) e"
  show ?case
  proof (cases "resolvable e f")
    case True
    then have "fillField f (field_selectors f) e = (True, ?e1)"
      by (simp add: fillField_trace resolvable_def)
    then show ?thesis using True Cons.IH [of "n + 1" ?e1] by simp
  next
    case False
    then have "fillField f (field_selectors f) e = (False, ?e1)"
      by (simp add: fillField_trace resolvable_def)
    then show ?thesis using False Cons.IH [of n ?e1] by simp
  qed
qed

lemma fillForm_trace:
  "fillForm flds e =
     (Returned (''Filled '' @ decimal (length (filter (resolvable e) flds)) @ ''/''
                @ decimal (length flds) @ '' form fields''),
      appendCalls (formTrace e flds) e)"
  by (simp add: fillForm_def fillFields_trace del: decimal.simps)

lemma typed_fillForm:
  "typed (issued e (snd (fillForm flds e))) =
     map (\<lambda>f. (fillSelector e f, field_value f)) (filter (resolvable e) flds)"
proof (cases "page e")
  case None
  then have "\<not> resolvable e f" for f
    by (auto simp: resolvable_def fillable_def fillCalls_def resolves_def list_ex_iff)
  then have "filter (resolvable e) flds = []" by (simp add: filter_empty_conv)
  then show ?thesis using None by (simp add: fillForm_trace issued_appendCalls_None)
next
  case (Some p)
  then show ?thesis by (simp add: fillForm_trace issued_appendCalls typed_formTrace)
qed

text \<open>
  On a page where whatever is asked of a found element succeeds, a field is resolvable
  exactly when the wait for one of its selectors resolves.
\<close>

lemma resolvable_found:
  assumes "\<forall>c. (\<forall>s t. c \<noteq> WaitForSelector s t) \<longrightarrow> resolves e c"
  shows "resolvable e f \<longleftrightarrow> (\<exists>s \<in> set (field_selectors f). resolves e (WaitForSelector s 2000))"
proof -
  have "fillable e f s \<longleftrightarrow> resolves e (WaitForSelector s 2000)" for s
    using assms by (simp add: fillable_def fillCalls_def)
  then show ?thesis by (simp add: resolvable_def list_ex_iff)
qed

text \<open>
  C3. A field is resolvable when for one of its selectors the wait, the click, the two key
  presses and the typing all resolve. For N fields of which exactly K are resolvable,
  \<^verbatim>\<open>fill_form\<close> returns \<^verbatim>\<open>Filled K/N form fields\<close>; what it types is, field by field
  in order, the value of each resolvable field into the first selector that fills it, and
  nothing for the others; a field that fails anywhere in the batch leaves what is typed for
  the fields before and after it as it is without that field.
\<close>

theorem fillForm_partial:
  assumes "length flds = N" and "length (filter (resolvable e) flds) = K"
  shows "fst (fillForm flds e) =
           Returned (''Filled '' @ decimal K @ ''/'' @ decimal N @ '' form fields'')
       \<and> typed (issued e (snd (fillForm flds e))) =
           map (\<lambda>f. (fillSelector e f, field_value f)) (filter (resolvable e) flds)
       \<and> length (typed (issued e (snd (fillForm flds e)))) = K
       \<and> (flds = before @ f # after \<and> \<not> resolvable e f \<longrightarrow>
            typed (issued e (snd (fillForm flds e))) =
              typed (issued e (snd (fillForm before e)))
              @ typed (issued e (snd (fillForm after e))))"
proof -
  have msg: "fst (fillForm flds e) =
      Returned (''Filled '' @ decimal K @ ''/'' @ decimal N @ '' form fields'')"
    using assms by (simp add: fillForm_trace del: decimal.simps)
  have count: "length (typed (issued e (snd (fillForm flds e)))) = K"
    using assms by (simp add: typed_fillForm)
  have apart: "typed (issued e (snd (fillForm flds e))) =
      typed (issued e (snd (fillForm before e))) @ typed (issued e (snd (fillForm after e)))"
    if "flds = before @ f # after" and "\<not> resolvable e f"
    using that by (simp add: typed_fillForm)
  show ?thesis using msg count apart typed_fillForm [of e flds] by blast
qed

lemma signup_resolvable:
  "filter (resolvable signupForm) signupFields = [signupFields ! 0, signupFields ! 2]"
  by (simp add: signupFields_def resolvable_def fillable_def fillCalls_def resolves_def
      signupForm_def)

theorem fillForm_partial_witness:
  "length signupFields = 3
   \<and> length (filter (resolvable signupForm) signupFields) = 2
   \<and> fst (fillForm signupFields signupForm) = Returned ''Filled 2/3 form fields''
   \<and> typed (issued signupForm (snd (fillForm signupFields signupForm))) =
       [(''#first'', ''John''), (''#email'', ''john.doe@example.com'')]
   \<and> \<not> resolvable signupForm (signupFields ! 1)
   \<and> typed (issued signupForm (snd (fillForm signupFields signupForm))) =
       typed (issued signupForm (snd (fillForm [signupFields ! 0] signupForm)))
       @ typed (issued signupForm (snd (fillForm [signupFields ! 2] signupForm)))"
proof -
  have n: "length signupFields = 3" by (simp add: signupFields_def)
  have k: "length (filter (resolvable signupForm) signupFields) = 2"
    by (simp add: signupFields_def resolvable_def fillable_def fillCalls_def resolves_def
      signupForm_def)
  have split: "signupFields = [signupFields ! 0] @ (signupFields ! 1) # [signupFields ! 2]"
    by (simp add: signupFields_def)
  have miss: "\<not> resolvable signupForm (signupFields ! 1)"
    by (simp add: signupFields_def resolvable_def fillable_def fillCalls_def resolves_def
      signupForm_def)
  have sel: "map (\<lambda>f. (fillSelector signupForm f, field_value f))
      (filter (resolvable signupForm) signupFields) =
      [(''#first'', ''John''), (''#email'', ''john.doe@example.com'')]"
    by (simp add: signupFields_def resolvable_def fillable_def fillCalls_def resolves_def
      signupForm_def fillSelector_def)
  have dec: "decimal 2 = ''2''" "decimal 3 = ''3''" by (simp_all add: digit_def)
  have inst: "fst (fillForm signupFields signupForm) =
           Returned (''Filled '' @ decimal 2 @ ''/'' @ decimal 3 @ '' form fields'')
       \<and> typed (issued signupForm (snd (fillForm signupFields signupForm))) =
           map (\<lambda>f. (fillSelector signupForm f, field_value f))
             (filter (resolvable signupForm) signupFields)
       \<and> length (typed (issued signupForm (snd (fillForm signupFields signupForm)))) = 2
       \<and> (signupFields = [signupFields ! 0] @ (signupFields ! 1) # [signupFields ! 2]
            \<and> \<not> resolvable signupForm (signupFields ! 1) \<longrightarrow>
            typed (issued signupForm (snd (fillForm signupFields signupForm))) =
              typed (issued signupForm (snd (fillForm [signupFields ! 0] signupForm)))
              @ typed (issued signupForm (snd (fillForm [signupFields ! 2] signupForm))))"
    by (rule fillForm_partial [OF n k])
  show ?thesis
    using inst split miss n k
    by (simp only: sel dec) auto
qed

section \<open>Scroll deltas, screenshot names, form summaries and defaults\<close>

lemma issued_tryCalls:
  "map fst (issued e (snd (tryCalls [c] e))) = (if page e = None then [] else [c])"
  by (simp add: snd_tryCalls issued_appendCalls issued_appendCalls_None del: tryCalls.simps)

lemma tryCalls_single:
  "resolves e c \<Longrightarrow> tryCalls [c] e = (None, appendCalls [(c, True)] e)"
  by (rule tryCalls_cases [of e "[c]"]) (simp_all del: tryCalls.simps)

text \<open>
  C5. \<^verbatim>\<open>scroll_page\<close> maps down to (0, a), up to (0, -a), right to (a, 0) and left to
  (-a, 0), for every amount a, and that pair is what it passes to the mouse wheel.
\<close>

theorem scrollPage_delta:
  "scrollMap Down a = (0, a) \<and> scrollMap Up a = (0, - a)
   \<and> scrollMap Right a = (a, 0) \<and> scrollMap Left a = (- a, 0)
   \<and> scrollMap Down 500 = (0, 500) \<and> scrollMap Left 300 = (- 300, 0)
   \<and> scrollMap Up 200 = (0, - 200) \<and> scrollMap Right 400 = (400, 0)
   \<and> map fst (issued e (snd (scrollPage dir a e))) =
       (if page e = None then []
        else [MouseWheel (fst (scrollMap dir a)) (snd (scrollMap dir a))])"
proof -
  obtain x y where xy: "scrollMap dir a = (x, y)" by (cases "scrollMap dir a")
  have "snd (scrollPage dir a e) = snd (tryCalls [MouseWheel x y] e)"
    by (cases "tryCalls [MouseWheel x y] e")
      (simp add: scrollPage_def xy split: option.splits del: tryCalls.simps)
  then have "map fst (issued e (snd (scrollPage dir a e))) =
      (if page e = None then [] else [MouseWheel x y])"
    by (simp only: issued_tryCalls)
  then show ?thesis by (simp add: xy)
qed

theorem scrollPage_delta_witness:
  "scrollMap Left 300 = (- 300, 0)
   \<and> map fst (issued scenarioA (snd (scrollPage Left 300 scenarioA))) = [MouseWheel (- 300) 0]
   \<and> map fst (issued scenarioA (snd (scrollPage Down 500 scenarioA))) = [MouseWheel 0 500]"
  using scrollPage_delta [of 300 scenarioA Left] scrollPage_delta [of 500 scenarioA Down]
  by (simp add: scenarioA_def)

lemma length_replaceColonDot: "length (replaceColonDot s) = length s"
  by (simp add: replaceColonDot_def)

lemma nth_replaceColonDot:
  "i < length s \<Longrightarrow>
   replaceColonDot s ! i = (if s ! i = CHR '':'' \<or> s ! i = CHR ''.'' then CHR ''-'' else s ! i)"
  by (simp add: replaceColonDot_def)

text \<open>
  C6, as stated: the name given, whatever it is, begins the file name. The empty name is a
  name the tool accepts, and the code treats it as no name.
\<close>

theorem takeScreenshot_empty_name_counterexample:
  "screenshotFilename (Some []) ''2024-01-01T00:00:00.000Z''
     = ''screenshot-2024-01-01T00-00-00-000Z.png''
   \<and> specFilename (Some []) ''2024-01-01T00:00:00.000Z'' = ''-2024-01-01T00-00-00-000Z.png''
   \<and> screenshotFilename (Some []) ''2024-01-01T00:00:00.000Z''
     \<noteq> specFilename (Some []) ''2024-01-01T00:00:00.000Z''"
  by (simp add: screenshotFilename_def specFilename_def replaceColonDot_def)

text \<open>
  C6, amended. The file name is the given name when that is a non-empty string, and
  \<^verbatim>\<open>screenshot\<close> when the name is \<^verbatim>\<open>null\<close> or empty, followed by a hyphen, the ISO
  timestamp with every colon and full stop replaced by a hyphen, and \<^verbatim>\<open>.png\<close>. The tool
  asks the page for one capture, not of the full page, at that name under the screenshot
  directory, and when the capture resolves it returns \<^verbatim>\<open>Screenshot saved as\<close> and the file
  name.
\<close>

theorem takeScreenshot_filename:
  "screenshotFilename name isoTime =
     (case name of None \<Rightarrow> ''screenshot'' | Some n \<Rightarrow> if n = [] then ''screenshot'' else n)
     @ ''-'' @ replaceColonDot isoTime @ ''.png''
   \<and> length (replaceColonDot isoTime) = length isoTime
   \<and> (\<forall>i<length isoTime. replaceColonDot isoTime ! i =
         (if isoTime ! i = CHR '':'' \<or> isoTime ! i = CHR ''.'' then CHR ''-'' else isoTime ! i))
   \<and> map fst (issued e (snd (takeScreenshot name isoTime e))) =
       (if page e = None then []
        else [Screenshot (screenshotPath e @ ''/'' @ screenshotFilename name isoTime) False])
   \<and> (resolves e (Screenshot (screenshotPath e @ ''/'' @ screenshotFilename name isoTime) False)
        \<longrightarrow> fst (takeScreenshot name isoTime e) =
              Returned (''Screenshot saved as '' @ screenshotFilename name isoTime))
   \<and> screenshotFilename (Some ''signup'') ''2024-01-01T00:00:00.000Z''
       = ''signup-2024-01-01T00-00-00-000Z.png''"
proof -
  let ?c = "Screenshot (screenshotPath e @ ''/'' @ screenshotFilename name isoTime) False"
  have name: "screenshotFilename name isoTime =
     (case name of None \<Rightarrow> ''screenshot'' | Some n \<Rightarrow> if n = [] then ''screenshot'' else n)
     @ ''-'' @ replaceColonDot isoTime @ ''.png''"
    by (simp add: screenshotFilename_def split: option.splits)
  have "snd (takeScreenshot name isoTime e) = snd (tryCalls [?c] e)"
    by (cases "tryCalls [?c] e")
      (simp add: takeScreenshot_def Let_def split: option.splits del: tryCalls.simps)
  then have call: "map fst (issued e (snd (takeScreenshot name isoTime e))) =
      (if page e = None then [] else [?c])"
    by (simp only: issued_tryCalls)
  have saved: "fst (takeScreenshot name isoTime e) =
      Returned (''Screenshot saved as '' @ screenshotFilename name isoTime)"
    if "resolves e ?c"
    using tryCalls_single [OF that] by (simp add: takeScreenshot_def Let_def del: tryCalls.simps)
  have scenarioB: "screenshotFilename (Some ''signup'') ''2024-01-01T00:00:00.000Z''
       = ''signup-2024-01-01T00-00-00-000Z.png''"
    by (simp add: screenshotFilename_def replaceColonDot_def)
  show ?thesis
    using name call saved scenarioB length_replaceColonDot [of isoTime]
      nth_replaceColonDot [of _ isoTime]
    by blast
qed

theorem takeScreenshot_filename_witness:
  "screenshotFilename None ''2024-01-01T00:00:00.000Z''
     = ''screenshot-2024-01-01T00-00-00-000Z.png''
   \<and> replaceColonDot ''2024-01-01T00:00:00.000Z'' ! 13 = CHR ''-''
   \<and> resolves signupForm
       (Screenshot ''./screenshots/signup-2024-01-01T00-00-00-000Z.png'' False)
   \<and> map fst (issued signupForm
        (snd (takeScreenshot (Some ''signup'') ''2024-01-01T00:00:00.000Z'' signupForm))) =
       [Screenshot ''./screenshots/signup-2024-01-01T00-00-00-000Z.png'' False]
   \<and> fst (takeScreenshot (Some ''signup'') ''2024-01-01T00:00:00.000Z'' signupForm) =
       Returned ''Screenshot saved as signup-2024-01-01T00-00-00-000Z.png''"
proof -
  have r: "resolves signupForm
      (Screenshot ''./screenshots/signup-2024-01-01T00-00-00-000Z.png'' False)"
    by (simp add: resolves_def signupForm_def)
  have p: "screenshotPath signupForm = ''./screenshots''"
    by (simp add: signupForm_def defaults_def constructor_def stringOr_def)
  have pg: "page signupForm \<noteq> None" by (simp add: signupForm_def)
  have i: "(13::nat) < length ''2024-01-01T00:00:00.000Z''" by simp
  show ?thesis
    using takeScreenshot_filename [of "Some ''signup''" "''2024-01-01T00:00:00.000Z''" signupForm]
      takeScreenshot_filename [of None "''2024-01-01T00:00:00.000Z''" signupForm]
      r p pg i
    by (simp add: replaceColonDot_def)
qed


text \<open>
  C7. The summary of \<^verbatim>\<open>analyze_form\<close>: its inputs are the first ten visible inputs of the
  page, its buttons are at most five with a text of at most 50 code units, its links are at
  most ten, each with a trimmed text that is not empty and shorter than 50; a page with 15
  visible inputs gives exactly 10 entries. The tool returns this summary when the
  evaluation in the page resolves.
\<close>

theorem analyzeForm_condensed:
  "inputs (formAnalysisOf p) = map inputInfoOf (take 10 (filter visible (allInputs p)))
   \<and> length (inputs (formAnalysisOf p)) = min 10 (length (filter visible (allInputs p)))
   \<and> length (buttons (formAnalysisOf p)) \<le> 5
   \<and> (\<forall>b \<in> set (buttons (formAnalysisOf p)). length (button_text b) \<le> 50)
   \<and> length (links (formAnalysisOf p)) \<le> 10
   \<and> (\<forall>l \<in> set (links (formAnalysisOf p)).
         0 < length (link_text l) \<and> length (link_text l) < 50)
   \<and> (length (filter visible (allInputs p)) = 15 \<longrightarrow> length (inputs (formAnalysisOf p)) = 10)
   \<and> (page e = Some p \<and> resolves e Evaluate \<longrightarrow>
         fst (analyzeForm e) = Returned (Analysis (formAnalysisOf p)))"
proof -
  have btn: "\<forall>b \<in> set (buttons (formAnalysisOf p)). length (button_text b) \<le> 50"
    by (auto simp: formAnalysisOf_def buttonInfoOf_def)
  have lnk: "\<forall>l \<in> set (links (formAnalysisOf p)).
      0 < length (link_text l) \<and> length (link_text l) < 50"
  proof
    fix l assume "l \<in> set (links (formAnalysisOf p))"
    then obtain el where el: "el \<in> set (take 10 (filter shortText (allLinks p)))"
      and l: "l = linkInfoOf el"
      by (auto simp: formAnalysisOf_def)
    from el have "shortText el" using in_set_takeD by fastforce
    then show "0 < length (link_text l) \<and> length (link_text l) < 50"
      by (simp add: l linkInfoOf_def shortText_def Let_def)
  qed
  have tool: "fst (analyzeForm e) = Returned (Analysis (formAnalysisOf p))"
    if "page e = Some p" and "resolves e Evaluate"
    using that tryCalls_single [OF that(2)]
    by (simp add: analyzeForm_def evaluated_def appendCalls_def formAnalysisOf_def
        del: tryCalls.simps)
  show ?thesis
    using btn lnk tool by (simp add: formAnalysisOf_def)
qed

theorem analyzeForm_condensed_witness:
  "length (filter visible (allInputs scenarioC)) = 15
   \<and> length (allInputs scenarioC) = 16
   \<and> length (inputs (formAnalysisOf scenarioC)) = 10
   \<and> length (buttons (formAnalysisOf scenarioC)) = 5
   \<and> length (links (formAnalysisOf scenarioC)) = 10
   \<and> button_text (buttons (formAnalysisOf scenarioC) ! 0) = ''Create your account''
   \<and> link_text (links (formAnalysisOf scenarioC) ! 0) = ''Home''
   \<and> fst (analyzeForm (signupForm\<lparr>page := Some scenarioC\<rparr>)) =
       Returned (Analysis (formAnalysisOf scenarioC))"
proof -
  have vis: "length (filter visible (allInputs scenarioC)) = 15"
    by (simp add: scenarioC_def visible_def visibleInput_def)
  have r: "page (signupForm\<lparr>page := Some scenarioC\<rparr>) = Some scenarioC
      \<and> resolves (signupForm\<lparr>page := Some scenarioC\<rparr>) Evaluate"
    by (simp add: resolves_def scenarioC_def)
  have b: "button_text (buttons (formAnalysisOf scenarioC) ! 0) = ''Create your account''"
    by (simp add: formAnalysisOf_def scenarioC_def visible_def submitButton_def buttonInfoOf_def
        trimmedText_def trim_def orElse_def isWhiteSpace_def eval_nat_numeral)
  have l: "link_text (links (formAnalysisOf scenarioC) ! 0) = ''Home''"
    by (simp add: formAnalysisOf_def scenarioC_def shortText_def homeLink_def linkInfoOf_def
        trimmedText_def trim_def orElse_def isWhiteSpace_def Let_def eval_nat_numeral)
  have lb: "length (buttons (formAnalysisOf scenarioC)) = 5"
    by (simp add: formAnalysisOf_def scenarioC_def visible_def submitButton_def)
  have ll: "length (links (formAnalysisOf scenarioC)) = 10"
    by (simp add: formAnalysisOf_def scenarioC_def shortText_def homeLink_def
        trimmedText_def trim_def orElse_def isWhiteSpace_def Let_def)
  show ?thesis
    using analyzeForm_condensed [of scenarioC "signupForm\<lparr>page := Some scenarioC\<rparr>"] vis r b l lb ll
    by (simp add: scenarioC_def)
qed

text \<open>
  C10. A falsy value of \<^verbatim>\<open>slowMo\<close>, \<^verbatim>\<open>timeout\<close> or \<^verbatim>\<open>screenshotPath\<close> (not supplied,
  \<^verbatim>\<open>NaN\<close>, zero or the empty string) is replaced by 1000, 30000 and \<^verbatim>\<open>./screenshots\<close>;
  with zero supplied the engine uses 1000 and 30000, so that no options make either zero.
\<close>

theorem constructor_falsy_defaults:
  "(falsyNumber (opt_slowMo opts) \<longrightarrow> slowMo (constructor opts) = 1000)
   \<and> (falsyNumber (opt_timeout opts) \<longrightarrow> timeout (constructor opts) = 30000)
   \<and> (falsyString (opt_screenshotPath opts) \<longrightarrow>
        screenshotPath (constructor opts) = ''./screenshots'')
   \<and> (opt_slowMo opts = Some (Num 0) \<longrightarrow> slowMo (constructor opts) = 1000)
   \<and> (opt_timeout opts = Some (Num 0) \<longrightarrow> timeout (constructor opts) = 30000)
   \<and> slowMo (constructor opts) \<noteq> 0
   \<and> timeout (constructor opts) \<noteq> 0"
  by (auto simp: constructor_def numberOr_def stringOr_def orElse_def falsyNumber_def
      falsyString_def split: option.splits number.splits)

theorem constructor_falsy_defaults_witness:
  "falsyNumber (Some (Num 0)) \<and> falsyString (Some [])
   \<and> slowMo (constructor \<lparr>opt_headless = Some True, opt_slowMo = Some (Num 0),
        opt_timeout = Some (Num 0), opt_screenshotPath = Some []\<rparr>) = 1000
   \<and> timeout (constructor \<lparr>opt_headless = Some True, opt_slowMo = Some (Num 0),
        opt_timeout = Some (Num 0), opt_screenshotPath = Some []\<rparr>) = 30000
   \<and> screenshotPath (constructor \<lparr>opt_headless = Some True, opt_slowMo = Some (Num 0),
        opt_timeout = Some (Num 0), opt_screenshotPath = Some []\<rparr>) = ''./screenshots''"
  using constructor_falsy_defaults [of "\<lparr>opt_headless = Some True, opt_slowMo = Some (Num 0),
        opt_timeout = Some (Num 0), opt_screenshotPath = Some []\<rparr>"]
  by (simp add: falsyNumber_def falsyString_def)

section \<open>The turn bound\<close>

lemma dispatches_snoc:
  "dispatches (h @ [(a, r)]) = dispatches h + (case a of Call req \<Rightarrow> 1 | BadCall msg \<Rightarrow> 0)"
  by (induction h rule: dispatches.induct) (simp_all split: action.splits)

lemma dispatches_le_length: "dispatches h \<le> length h"
  by (induction h rule: dispatches.induct) simp_all

text \<open>
  The loop from any turn on: the history only grows, by no more than the turns that are
  left; it ends as Aborted only with the counter at the bound; and unless the transport
  fails it ends as Completed or Aborted.
\<close>

lemma runLoop_bound:
  "length hist \<le> length (runHistory (runLoop decide clock M turns hist e))
   \<and> int (length (runHistory (runLoop decide clock M turns hist e))) - int (length hist)
       \<le> max 0 (M - int turns)
   \<and> (runOutcome (runLoop decide clock M turns hist e) = Returned Aborted \<longrightarrow>
        M - int turns
          \<le> int (length (runHistory (runLoop decide clock M turns hist e))) - int (length hist))
   \<and> ((\<forall>h. \<not> isTransportFailure (decide h)) \<longrightarrow>
        runOutcome (runLoop decide clock M turns hist e) = Returned Aborted
        \<or> (\<exists>a. runOutcome (runLoop decide clock M turns hist e) = Returned (Completed a)))"
proof (induction decide clock M turns hist e rule: runLoop.induct)
  case (1 decide clock M turns hist e)
  show ?case
  proof (cases "M \<le> int turns")
    case True
    then show ?thesis by (simp add: runLoop.simps runOutcome_def runHistory_def)
  next
    case False
    note more = False
    show ?thesis
    proof (cases "decide hist")
      case (FinalAnswer a)
      with more show ?thesis by (simp add: runLoop.simps runOutcome_def runHistory_def)
    next
      case (TransportFailure err)
      then have "isTransportFailure (decide hist)" by (simp add: isTransportFailure_def)
      then have "\<not> (\<forall>h. \<not> isTransportFailure (decide h))" by blast
      with more TransportFailure show ?thesis
        by (simp add: runLoop.simps runOutcome_def runHistory_def)
    next
      case (Act a)
      show ?thesis
      proof (cases a)
        case (BadCall msg)
        have step: "runLoop decide clock M turns hist e =
            runLoop decide clock M (turns + 1) (hist @ [(BadCall msg, Text msg)]) e"
          using more Act BadCall by (simp add: runLoop.simps [of decide clock M turns hist e])
        show ?thesis
          using "1.IH"(2) [OF more Act BadCall] more
          unfolding step by auto
      next
        case (Call req)
        obtain r e1 where ex: "execute (clock turns) req e = (r, e1)"
          by (cases "execute (clock turns) req e")
        have step: "runLoop decide clock M turns hist e =
            runLoop decide clock M (turns + 1) (hist @ [(Call req, resultOf r)]) e1"
          using more Act Call ex by (simp add: runLoop.simps [of decide clock M turns hist e])
        show ?thesis
          using "1.IH"(1) [OF more Act Call ex [symmetric]] more
          unfolding step by auto
      qed
    qed
  qed
qed

lemma runLoop_dispatches:
  "dispatches (runHistory (runLoop decide clock M turns hist e))
     \<le> dispatches hist + (length (runHistory (runLoop decide clock M turns hist e)) - length hist)"
proof (induction decide clock M turns hist e rule: runLoop.induct)
  case (1 decide clock M turns hist e)
  show ?case
  proof (cases "M \<le> int turns")
    case True
    then show ?thesis by (simp add: runLoop.simps runHistory_def)
  next
    case False
    note more = False
    show ?thesis
    proof (cases "decide hist")
      case (FinalAnswer a)
      with more show ?thesis by (simp add: runLoop.simps runHistory_def)
    next
      case (TransportFailure err)
      with more show ?thesis by (simp add: runLoop.simps runHistory_def)
    next
      case (Act a)
      show ?thesis
      proof (cases a)
        case (BadCall msg)
        have step: "runLoop decide clock M turns hist e =
            runLoop decide clock M (turns + 1) (hist @ [(BadCall msg, Text msg)]) e"
          using more Act BadCall by (simp add: runLoop.simps [of decide clock M turns hist e])
        have le: "length (hist @ [(BadCall msg, Text msg)]) \<le> length (runHistory
            (runLoop decide clock M (turns + 1) (hist @ [(BadCall msg, Text msg)]) e))"
          using runLoop_bound [of "hist @ [(BadCall msg, Text msg)]" decide clock M "turns + 1" e]
          by blast
        show ?thesis
          using "1.IH"(2) [OF more Act BadCall] le
          unfolding step by (simp add: dispatches_snoc)
      next
        case (Call req)
        obtain r e1 where ex: "execute (clock turns) req e = (r, e1)"
          by (cases "execute (clock turns) req e")
        have step: "runLoop decide clock M turns hist e =
            runLoop decide clock M (turns + 1) (hist @ [(Call req, resultOf r)]) e1"
          using more Act Call ex by (simp add: runLoop.simps [of decide clock M turns hist e])
        have le: "length (hist @ [(Call req, resultOf r)]) \<le> length (runHistory
            (runLoop decide clock M (turns + 1) (hist @ [(Call req, resultOf r)]) e1))"
          using runLoop_bound [of "hist @ [(Call req, resultOf r)]" decide clock M "turns + 1" e1]
          by blast
        show ?thesis
          using "1.IH"(1) [OF more Act Call ex [symmetric]] le
          unfolding step by (simp add: dispatches_snoc)
      qed
    qed
  qed
qed

text \<open>With a tool request at every turn the loop dispatches until the bound and is Aborted.\<close>

lemma runLoop_all_calls:
  assumes "\<forall>h. isToolCall (decide h)"
  shows "runOutcome (runLoop decide clock M turns hist e) = Returned Aborted
   \<and> dispatches (runHistory (runLoop decide clock M turns hist e))
       = dispatches hist + nat (M - int turns)"
  using assms
proof (induction decide clock M turns hist e rule: runLoop.induct)
  case (1 decide clock M turns hist e)
  show ?case
  proof (cases "M \<le> int turns")
    case True
    then show ?thesis by (simp add: runLoop.simps runOutcome_def runHistory_def)
  next
    case False
    note more = False
    from "1.prems" have "isToolCall (decide hist)" by simp
    then obtain req where d: "decide hist = Act (Call req)"
      by (auto simp: isToolCall_def split: decision.splits action.splits)
    obtain r e1 where ex: "execute (clock turns) req e = (r, e1)"
      by (cases "execute (clock turns) req e")
    have step: "runLoop decide clock M turns hist e =
        runLoop decide clock M (turns + 1) (hist @ [(Call req, resultOf r)]) e1"
      using more d ex by (simp add: runLoop.simps [of decide clock M turns hist e])
    show ?thesis
      using "1.IH"(1) [OF more d refl ex [symmetric] "1.prems"] more
      unfolding step by (simp add: dispatches_snoc nat_diff_distrib)
  qed
qed

lemma runAutomation_Returned:
  "runOutcome (runLoop decide clock (numberOr v 25) 0 [] e) = Returned x \<Longrightarrow>
   runAutomation decide clock v e = runLoop decide clock (numberOr v 25) 0 [] e"
  by (cases "runLoop decide clock (numberOr v 25) 0 [] e")
    (auto simp: runAutomation_def runOutcome_def)

lemma runAutomation_history:
  "runHistory (runAutomation decide clock v e) =
     runHistory (runLoop decide clock (numberOr v 25) 0 [] e)"
  by (cases "runLoop decide clock (numberOr v 25) 0 [] e")
    (auto simp: runAutomation_def runHistory_def split: outcome.splits option.splits prod.splits)



section \<open>Closing twice\<close>

lemma closeBrowser_Returned: "\<exists>s. fst (closeBrowser e) = Returned s"
  by (auto simp: closeBrowser_def browserClose_def split: option.splits)



section \<open>Transitions of the session\<close>

lemma startsWith_append: "startsWith p (p @ s)"
  by (simp add: startsWith_def)

lemma faithful_Nil [simp]: "faithful e []"
  by (simp add: faithful_def)

lemma faithful_append [simp]: "faithful e (xs @ ys) \<longleftrightarrow> faithful e xs \<and> faithful e ys"
  by (simp add: faithful_def)

lemma faithful_appendCalls [simp]: "faithful (appendCalls zs e) xs = faithful e xs"
  by (simp add: faithful_def)

lemma faithful_answers [simp]: "faithful e (answers e cs)"
  by (induction cs) (simp_all add: faithful_def)

lemma faithful_silent:
  "faithful e xs \<Longrightarrow> \<forall>c. \<not> resolves e c \<Longrightarrow> \<forall>x \<in> set xs. \<not> snd x"
  by (simp add: faithful_def list_all_iff)

text \<open>Every tool but \<^verbatim>\<open>close_browser\<close> changes the engine only by what its page records.\<close>

lemma snd_asText [simp]: "snd (asText r) = snd r"
  by (cases r) (simp add: asText_def split: outcome.splits)

lemma snd_openBrowser:
  "snd (openBrowser url e) = appendCalls (answers e [Goto url (timeout e), Title]) e"
  by (rule tryCalls_cases [of e "[Goto url (timeout e), Title]"])
    (simp_all add: openBrowser_def del: tryCalls.simps answers.simps)

lemma snd_takeScreenshot:
  "snd (takeScreenshot name isoTime e) =
     appendCalls (answers e [Screenshot (screenshotPath e @ ''/'' @ screenshotFilename name isoTime)
       False]) e"
  by (rule tryCalls_cases [of e
        "[Screenshot (screenshotPath e @ ''/'' @ screenshotFilename name isoTime) False]"])
    (simp_all add: takeScreenshot_def Let_def del: tryCalls.simps answers.simps)

lemma snd_analyzeForm: "snd (analyzeForm e) = appendCalls (answers e [Evaluate]) e"
  by (rule tryCalls_cases [of e "[Evaluate]"])
    (simp_all add: analyzeForm_def del: tryCalls.simps answers.simps)

lemma snd_scrollPage:
  "snd (scrollPage dir amount e) =
     appendCalls (answers e [MouseWheel (fst (scrollMap dir amount)) (snd (scrollMap dir amount))]) e"
  by (rule tryCalls_cases [of e
        "[MouseWheel (fst (scrollMap dir amount)) (snd (scrollMap dir amount))]"])
    (simp_all add: scrollPage_def split_beta del: tryCalls.simps answers.simps)

lemma clickElement_logged:
  "\<exists>xs. snd (clickElement ss d e) = appendCalls xs e \<and> faithful e xs"
proof (induction ss arbitrary: e)
  case Nil
  have "snd (clickElement [] d e) = appendCalls [] e \<and> faithful e []" by simp
  then show ?case by blast
next
  case (Cons s ss)
  let ?e1 = "appendCalls (clickTrace e [s]) e"
  show ?case
  proof (cases "matches e s")
    case True
    then have "snd (clickElement (s # ss) d e) = ?e1 \<and> faithful e (clickTrace e [s])"
      by (simp add: clickElement_step del: clickElement.simps answers.simps)
    then show ?thesis by blast
  next
    case False
    from Cons.IH [of ?e1] obtain xs
      where xs: "snd (clickElement ss d ?e1) = appendCalls xs ?e1" "faithful ?e1 xs"
      by blast
    have "snd (clickElement (s # ss) d e) = appendCalls (clickTrace e [s] @ xs) e
        \<and> faithful e (clickTrace e [s] @ xs)"
      using False xs by (simp add: clickElement_step del: clickElement.simps answers.simps)
    then show ?thesis by blast
  qed
qed

lemma waitForElement_logged:
  "\<exists>xs. snd (waitForElement ss t e) = appendCalls xs e \<and> faithful e xs"
proof (induction ss arbitrary: e)
  case Nil
  have "snd (waitForElement [] t e) = appendCalls [] e \<and> faithful e []" by simp
  then show ?case by blast
next
  case (Cons s ss)
  let ?e1 = "appendCalls (waitTrace e t [s]) e"
  have f: "faithful e (waitTrace e t [s])" by (simp add: faithful_def)
  show ?case
  proof (cases "resolves e (WaitForSelector s t)")
    case True
    then have "snd (waitForElement (s # ss) t e) = ?e1"
      by (simp add: waitForElement_step del: waitForElement.simps)
    with f show ?thesis by blast
  next
    case False
    from Cons.IH [of ?e1] obtain xs
      where xs: "snd (waitForElement ss t ?e1) = appendCalls xs ?e1" "faithful ?e1 xs"
      by blast
    have "snd (waitForElement (s # ss) t e) = appendCalls (waitTrace e t [s] @ xs) e
        \<and> faithful e (waitTrace e t [s] @ xs)"
      using False xs f by (simp add: waitForElement_step del: waitForElement.simps waitTrace_simps)
    then show ?thesis by blast
  qed
qed

lemma faithful_fieldTrace [simp]: "faithful e (fieldTrace e f ss)"
  by (induction ss) (simp_all del: answers.simps)

lemma faithful_formTrace [simp]: "faithful e (formTrace e flds)"
  by (induction flds) simp_all

lemma execute_logged:
  assumes "req \<noteq> Close_browser"
  shows "\<exists>xs. snd (execute now req e) = appendCalls xs e \<and> faithful e xs"
proof (cases req)
  case (Open_browser url)
  have "snd (execute now req e) = appendCalls (answers e [Goto url (timeout e), Title]) e
      \<and> faithful e (answers e [Goto url (timeout e), Title])"
    by (simp add: Open_browser snd_openBrowser del: answers.simps)
  then show ?thesis by blast
next
  case (Take_screenshot name)
  let ?xs = "answers e [Screenshot (screenshotPath e @ ''/'' @ screenshotFilename name now) False]"
  have "snd (execute now req e) = appendCalls ?xs e \<and> faithful e ?xs"
    by (simp add: Take_screenshot snd_takeScreenshot del: answers.simps)
  then show ?thesis by blast
next
  case (Click_element ss d)
  then show ?thesis using clickElement_logged [of ss d e] by simp
next
  case (Fill_form flds)
  have "snd (execute now req e) = appendCalls (formTrace e flds) e \<and> faithful e (formTrace e flds)"
    by (simp add: Fill_form fillForm_trace del: decimal.simps)
  then show ?thesis by blast
next
  case Analyze_form
  have "snd (execute now req e) = appendCalls (answers e [Evaluate]) e
      \<and> faithful e (answers e [Evaluate])"
    by (simp add: Analyze_form snd_analyzeForm del: answers.simps)
  then show ?thesis by blast
next
  case (Wait_for_element ss t)
  then show ?thesis using waitForElement_logged [of ss t e] by simp
next
  case (Scroll_page dir amount)
  let ?xs = "answers e [MouseWheel (fst (scrollMap dir amount)) (snd (scrollMap dir amount))]"
  have "snd (execute now req e) = appendCalls ?xs e \<and> faithful e ?xs"
    by (simp add: Scroll_page snd_scrollPage del: answers.simps)
  then show ?thesis by blast
next
  case Close_browser
  with assms show ?thesis by simp
qed

lemma sessionStateOf_appendCalls [simp]: "sessionStateOf (appendCalls xs e) = sessionStateOf e"
  by (cases "page e") (simp_all add: sessionStateOf_def appendCalls_def)

lemma execute_state:
  "req \<noteq> Close_browser \<Longrightarrow> sessionStateOf (snd (execute now req e)) = sessionStateOf e"
  using execute_logged [of req now e] by auto

text \<open>What the three closing paths and \<^verbatim>\<open>initialize\<close> do to the state.\<close>

lemma closeBrowser_state:
  "sessionStateOf (snd (closeBrowser e)) = sessionStateOf e
   \<or> sessionStateOf (snd (closeBrowser e)) = Closed"
  by (auto simp: closeBrowser_def browserClose_def sessionStateOf_def split: option.splits)

lemma closeIfConnected_state:
  "sessionStateOf (snd (closeIfConnected e)) = sessionStateOf e
   \<or> sessionStateOf (snd (closeIfConnected e)) = Closed"
  by (auto simp: closeIfConnected_def browserClose_def sessionStateOf_def split: option.splits)

lemma closeBrowser_Closed:
  "sessionStateOf e = Closed \<Longrightarrow> sessionStateOf (snd (closeBrowser e)) = Closed"
  using closeBrowser_state [of e] by auto

lemma closeIfConnected_Closed:
  "sessionStateOf e = Closed \<Longrightarrow> sessionStateOf (snd (closeIfConnected e)) = Closed"
  using closeIfConnected_state [of e] by auto

lemma snd_cleanup: "snd (cleanup e) = snd (closeIfConnected e)"
  by (cases "closeIfConnected e") (simp add: cleanup_def split: option.splits)

lemma initialize_state:
  "sessionStateOf (snd (initialize l e)) = sessionStateOf e
   \<or> sessionStateOf (snd (initialize l e)) = Ready
   \<or> (sessionStateOf (snd (initialize l e)) = Uninitialized \<and> page e = None)"
  by (auto simp: initialize_def sessionStateOf_def Let_def split: launch.splits sum.splits)

lemma initialize_Ready:
  "sessionStateOf (snd (initialize (Launches cr (Inr p)) e)) = Ready"
  by (simp add: initialize_def sessionStateOf_def)

lemma step_not_initialize:
  "\<not> isInitialize operation \<Longrightarrow>
   sessionStateOf (step operation e) = sessionStateOf e
   \<or> (isClose operation \<and> sessionStateOf (step operation e) = Closed)"
proof (cases operation)
  case (Initialize l)
  assume "\<not> isInitialize operation"
  with Initialize show ?thesis by simp
next
  case (Execute now req)
  show ?thesis
  proof (cases "req = Close_browser")
    case True
    with Execute show ?thesis using closeBrowser_state [of e] by auto
  next
    case False
    with Execute show ?thesis using execute_state [of req now e] by simp
  qed
next
  case Cleanup
  then show ?thesis using closeIfConnected_state [of e] by (auto simp: snd_cleanup)
next
  case ForceClose
  then show ?thesis using closeIfConnected_state [of e] by auto
qed

text \<open>On every engine that the operations can reach, a page is held only beside a browser.\<close>

lemma page_step:
  "(page e \<noteq> None \<longrightarrow> browser e \<noteq> None) \<Longrightarrow>
   page (step operation e) \<noteq> None \<longrightarrow> browser (step operation e) \<noteq> None"
proof (cases operation)
  case (Initialize l)
  assume "page e \<noteq> None \<longrightarrow> browser e \<noteq> None"
  with Initialize show ?thesis
    by (auto simp: initialize_def Let_def split: launch.splits sum.splits)
next
  case (Execute now req)
  assume inv: "page e \<noteq> None \<longrightarrow> browser e \<noteq> None"
  show ?thesis
  proof (cases "req = Close_browser")
    case True
    with Execute inv show ?thesis
      by (auto simp: closeBrowser_def browserClose_def split: option.splits)
  next
    case False
    from execute_logged [OF False, of now e] obtain xs
      where "snd (execute now req e) = appendCalls xs e" by blast
    with Execute inv show ?thesis by simp
  qed
next
  case Cleanup
  assume "page e \<noteq> None \<longrightarrow> browser e \<noteq> None"
  with Cleanup show ?thesis
    by (auto simp: snd_cleanup closeIfConnected_def browserClose_def split: option.splits)
next
  case ForceClose
  assume "page e \<noteq> None \<longrightarrow> browser e \<noteq> None"
  with ForceClose show ?thesis
    by (auto simp: closeIfConnected_def browserClose_def split: option.splits)
qed

lemma reachable_page: "reachable e \<Longrightarrow> page e \<noteq> None \<longrightarrow> browser e \<noteq> None"
proof (induction rule: reachable.induct)
  case (constructed opts)
  show ?case by (simp add: constructor_def)
next
  case (stepped e operation)
  from stepped.IH show ?case by (rule page_step)
qed

lemma reachable_Uninitialized:
  "reachable e \<Longrightarrow> sessionStateOf e = Uninitialized \<Longrightarrow> page e = None"
  using reachable_page [of e]
  by (auto simp: sessionStateOf_def split: option.splits if_splits)


text \<open>Without a page that answers, every tool but \<^verbatim>\<open>close_browser\<close> reports failure.\<close>

lemma fst_asText [simp]: "fst (asText (Returned s, e)) = Returned (Text s)"
  by (simp add: asText_def)

lemma silent_tryCalls:
  assumes "\<forall>c. \<not> resolves e c" and "cs \<noteq> []"
  shows "\<exists>err. tryCalls cs e = (Some err, appendCalls (answers e cs) e)"
proof (rule tryCalls_cases [of e cs])
  assume "list_all (resolves e) cs"
  with assms have False by (cases cs) simp_all
  then show ?thesis ..
next
  fix err assume "tryCalls cs e = (Some err, appendCalls (answers e cs) e)"
  then show ?thesis by blast
qed

lemma execute_fails:
  assumes silent: "\<forall>c. \<not> resolves e c" and "req \<noteq> Close_browser"
  shows "\<exists>r. fst (execute now req e) = Returned r \<and> failed req r"
proof (cases req)
  case (Open_browser url)
  obtain err where "tryCalls [Goto url (timeout e), Title] e =
      (Some err, appendCalls (answers e [Goto url (timeout e), Title]) e)"
    using silent_tryCalls [OF silent list.distinct(2)] by blast
  then have "fst (execute now req e) = Returned (Text (''Navigation failed: '' @ err))"
    by (simp add: Open_browser openBrowser_def del: tryCalls.simps answers.simps)
  moreover have "failed req (Text (''Navigation failed: '' @ err))"
    by (simp only: Open_browser failed.simps toolResult.case startsWith_append)
  ultimately show ?thesis by blast
next
  case (Take_screenshot name)
  let ?cs = "[Screenshot (screenshotPath e @ ''/'' @ screenshotFilename name now) False]"
  obtain err where "tryCalls ?cs e = (Some err, appendCalls (answers e ?cs) e)"
    using silent_tryCalls [OF silent list.distinct(2)] by blast
  then have "fst (execute now req e) = Returned (Text (''Screenshot failed: '' @ err))"
    by (simp add: Take_screenshot takeScreenshot_def Let_def del: tryCalls.simps answers.simps)
  moreover have "failed req (Text (''Screenshot failed: '' @ err))"
    by (simp only: Take_screenshot failed.simps toolResult.case startsWith_append)
  ultimately show ?thesis by blast
next
  case (Click_element ss d)
  have "\<forall>s \<in> set ss. \<not> matches e s" using silent by (simp add: matches_def)
  then show ?thesis
    by (simp add: Click_element clickElement_exhausted)
next
  case (Fill_form flds)
  have "\<not> resolvable e f" for f
    using silent by (auto simp: resolvable_def fillable_def fillCalls_def list_ex_iff)
  then have "filter (resolvable e) flds = []" by (simp add: filter_empty_conv)
  moreover have "decimal 0 = ''0''" by (simp add: digit_def)
  ultimately show ?thesis
    by (simp add: Fill_form fillForm_trace del: decimal.simps)
next
  case Analyze_form
  obtain err where "tryCalls [Evaluate] e = (Some err, appendCalls (answers e [Evaluate]) e)"
    using silent_tryCalls [OF silent list.distinct(2)] by blast
  then have "fst (execute now req e) = Returned (AnalysisError (''Form analysis failed: '' @ err))"
    by (simp add: Analyze_form analyzeForm_def del: tryCalls.simps answers.simps)
  moreover have "failed req (AnalysisError (''Form analysis failed: '' @ err))"
    by (simp only: Analyze_form failed.simps toolResult.case startsWith_append)
  ultimately show ?thesis by blast
next
  case (Wait_for_element ss t)
  have "\<forall>s \<in> set ss. \<not> resolves e (WaitForSelector s t)" using silent by simp
  then show ?thesis
    by (simp add: Wait_for_element waitForElement_exhausted)
next
  case (Scroll_page dir amount)
  obtain x y where xy: "scrollMap dir amount = (x, y)" by (cases "scrollMap dir amount")
  obtain err where "tryCalls [MouseWheel x y] e =
      (Some err, appendCalls (answers e [MouseWheel x y]) e)"
    using silent_tryCalls [OF silent list.distinct(2)] by blast
  then have "fst (execute now req e) = Returned (Text (''Scroll failed: '' @ err))"
    by (simp add: Scroll_page scrollPage_def xy del: tryCalls.simps answers.simps)
  moreover have "failed req (Text (''Scroll failed: '' @ err))"
    by (simp only: Scroll_page failed.simps toolResult.case startsWith_append)
  ultimately show ?thesis by blast
next
  case Close_browser
  with assms show ?thesis by simp
qed

lemma execute_silent:
  assumes silent: "\<forall>c. \<not> resolves e c" and "req \<noteq> Close_browser"
  shows "\<forall>x \<in> set (issued e (snd (execute now req e))). \<not> snd x"
proof -
  from execute_logged [OF assms(2), of now e] obtain xs
    where xs: "snd (execute now req e) = appendCalls xs e" "faithful e xs" by blast
  have quiet: "\<forall>x \<in> set xs. \<not> snd x" using xs(2) silent by (rule faithful_silent)
  show ?thesis
  proof (cases "page e")
    case None
    then show ?thesis by (simp add: xs issued_appendCalls_None)
  next
    case (Some p)
    then show ?thesis using quiet by (simp add: xs issued_appendCalls)
  qed
qed





text \<open>A run of \<^verbatim>\<open>runAutomation\<close> is a sequence of these operations.\<close>

lemma runLoop_reachable:
  "reachable e \<Longrightarrow> reachable (snd (runLoop decide clock M turns hist e))"
proof (induction decide clock M turns hist e rule: runLoop.induct)
  case (1 decide clock M turns hist e)
  show ?case
  proof (cases "M \<le> int turns")
    case True
    with "1.prems" show ?thesis by (simp add: runLoop.simps)
  next
    case False
    note more = False
    show ?thesis
    proof (cases "decide hist")
      case (FinalAnswer a)
      with more "1.prems" show ?thesis by (simp add: runLoop.simps)
    next
      case (TransportFailure err)
      with more "1.prems" show ?thesis by (simp add: runLoop.simps)
    next
      case (Act a)
      show ?thesis
      proof (cases a)
        case (BadCall msg)
        have step: "runLoop decide clock M turns hist e =
            runLoop decide clock M (turns + 1) (hist @ [(BadCall msg, Text msg)]) e"
          using more Act BadCall by (simp add: runLoop.simps [of decide clock M turns hist e])
        show ?thesis
          using "1.IH"(2) [OF more Act BadCall "1.prems"] unfolding step .
      next
        case (Call req)
        obtain r e1 where ex: "execute (clock turns) req e = (r, e1)"
          by (cases "execute (clock turns) req e")
        have step: "runLoop decide clock M turns hist e =
            runLoop decide clock M (turns + 1) (hist @ [(Call req, resultOf r)]) e1"
          using more Act Call ex by (simp add: runLoop.simps [of decide clock M turns hist e])
        have e1: "e1 = step (Execute (clock turns) req) e" using ex by simp
        have "reachable e1" unfolding e1 using "1.prems" by (rule reachable.stepped)
        then show ?thesis
          using "1.IH"(1) [OF more Act Call ex [symmetric]] unfolding step by simp
      qed
    qed
  qed
qed

lemma runAutomation_reachable:
  assumes "reachable e"
  shows "reachable (snd (runAutomation decide clock v e))"
proof -
  let ?loop = "runLoop decide clock (numberOr v 25) 0 [] e"
  have loop: "reachable (snd ?loop)" using assms by (rule runLoop_reachable)
  then have "reachable (step ForceClose (snd ?loop))" by (rule reachable.stepped)
  then have force: "reachable (snd (closeIfConnected (snd ?loop)))" by simp
  show ?thesis
  proof (cases ?loop)
    case (Pair rh e1)
    obtain r h where rh: "rh = (r, h)" by (cases rh)
    show ?thesis
    proof (cases r)
      case (Returned x)
      with Pair rh loop show ?thesis by (simp add: runAutomation_def)
    next
      case (Thrown err)
      with Pair rh force show ?thesis
        by (cases "closeIfConnected e1") (auto simp: runAutomation_def split: option.splits)
    qed
  qed
qed

end
